theory Spec2Isabelle
  imports Complex_Main "HOL-Library.List_Lexorder"
begin

section \<open>The module system of \<open>needle.nn\<close>\<close>

subsection \<open>Python values and the object store\<close>

text \<open>
  \<open>_unpack_params\<close> and \<open>_child_modules\<close> inspect a value with \<open>isinstance\<close>. The
  cases they tell apart are the constructors of \<open>pyval\<close>: a \<open>Parameter\<close> (a tensor, known
  here by its identity), a \<open>Module\<close> instance (a reference into the store), a \<open>dict\<close>
  (its items in insertion order), a \<open>list\<close> or \<open>tuple\<close>, and anything else (numbers,
  strings, \<open>None\<close>, booleans, plain tensors).

  A \<open>Module\<close> instance is an object of the store. Its \<open>__dict__\<close> holds the attribute
  \<open>training\<close> and whatever the subclass assigns; \<open>training\<close> is a boolean, which both
  traversals skip, so the model keeps it in a field of its own and lists the other
  attributes in \<open>attrs\<close>, in the order of \<open>__dict__\<close>.
\<close>

type_synonym addr = nat

datatype pyval =
    Parameter addr
  | ModuleRef addr
  | PyDict "(string \<times> pyval) list"
  | PySeq "pyval list"
  | Opaque

record module_obj =
  training :: bool
  attrs :: "(string \<times> pyval) list"

type_synonym heap = "addr \<Rightarrow> module_obj option"

text \<open>
  The loop \<open>acc = []; for v in vs: acc += f(v); return acc\<close> of both traversals. A call
  that does not return makes the loop not return.
\<close>

fun collect :: "('a \<Rightarrow> 'b list option) \<Rightarrow> 'a list \<Rightarrow> 'b list option" where
  "collect f [] = Some []"
| "collect f (v # vs) =
     (case f v of
        None \<Rightarrow> None
      | Some xs \<Rightarrow> (case collect f vs of None \<Rightarrow> None | Some ys \<Rightarrow> Some (xs @ ys)))"

text \<open>
  Both traversals recurse without a bound, so on a cyclic attribute graph they do not
  return. The first argument is the recursion depth that is left: \<open>None\<close> means that the
  depth did not suffice (or that a reference points to no object, which Python excludes).
\<close>

fun unpack_params :: "nat \<Rightarrow> heap \<Rightarrow> pyval \<Rightarrow> addr list option" where
  "unpack_params 0 h v = None"
| "unpack_params (Suc n) h (Parameter p) = Some [p]"
| "unpack_params (Suc n) h (ModuleRef a) =
     (case h a of None \<Rightarrow> None | Some ob \<Rightarrow> unpack_params n h (PyDict (attrs ob)))"
| "unpack_params (Suc n) h (PyDict kvs) = collect (\<lambda>(k, v). unpack_params n h v) kvs"
| "unpack_params (Suc n) h (PySeq vs) = collect (\<lambda>v. unpack_params n h v) vs"
| "unpack_params (Suc n) h Opaque = Some []"

fun child_modules :: "nat \<Rightarrow> heap \<Rightarrow> pyval \<Rightarrow> addr list option" where
  "child_modules 0 h v = None"
| "child_modules (Suc n) h (ModuleRef a) =
     (case h a of
        None \<Rightarrow> None
      | Some ob \<Rightarrow>
          (case child_modules n h (PyDict (attrs ob)) of
             None \<Rightarrow> None
           | Some ms \<Rightarrow> Some (a # ms)))"
| "child_modules (Suc n) h (PyDict kvs) = collect (\<lambda>(k, v). child_modules n h v) kvs"
| "child_modules (Suc n) h (PySeq vs) = collect (\<lambda>v. child_modules n h v) vs"
| "child_modules (Suc n) h (Parameter p) = Some []"
| "child_modules (Suc n) h Opaque = Some []"

text \<open>\<open>Module.parameters\<close> and \<open>Module._children\<close>: the traversal of \<open>self.__dict__\<close>.\<close>

definition Module_parameters :: "nat \<Rightarrow> heap \<Rightarrow> addr \<Rightarrow> addr list option" where
  "Module_parameters n h a =
     (case h a of None \<Rightarrow> None | Some ob \<Rightarrow> unpack_params n h (PyDict (attrs ob)))"

definition Module_children :: "nat \<Rightarrow> heap \<Rightarrow> addr \<Rightarrow> addr list option" where
  "Module_children n h a =
     (case h a of None \<Rightarrow> None | Some ob \<Rightarrow> child_modules n h (PyDict (attrs ob)))"

text \<open>The assignment \<open>m.training = b\<close>.\<close>

definition set_training :: "bool \<Rightarrow> heap \<Rightarrow> addr \<Rightarrow> heap" where
  "set_training b h a =
     (case h a of None \<Rightarrow> h | Some ob \<Rightarrow> h(a \<mapsto> ob\<lparr>training := b\<rparr>))"

text \<open>
  \<open>Module.eval\<close> and \<open>Module.train\<close> assign the flag of \<open>self\<close>, then that of every
  module of \<open>self._children()\<close>, in the order of the list.
\<close>

definition set_mode :: "bool \<Rightarrow> nat \<Rightarrow> heap \<Rightarrow> addr \<Rightarrow> heap option" where
  "set_mode b n h a =
     (let h1 = set_training b h a in
      case Module_children n h1 a of
        None \<Rightarrow> None
      | Some ms \<Rightarrow> Some (foldl (set_training b) h1 ms))"

definition Module_eval :: "nat \<Rightarrow> heap \<Rightarrow> addr \<Rightarrow> heap option" where
  "Module_eval n h a = set_mode False n h a"

definition Module_train :: "nat \<Rightarrow> heap \<Rightarrow> addr \<Rightarrow> heap option" where
  "Module_train n h a = set_mode True n h a"

subsection \<open>Access paths\<close>

text \<open>
  What "reachable through attributes, nested modules, mappings and sequences" means: a
  path is a list of positions, each choosing an entry of the value reached so far (the
  \<open>i\<close>-th attribute of a module, the \<open>i\<close>-th item of a dict, the \<open>i\<close>-th element of a list
  or tuple).
\<close>

fun entries :: "heap \<Rightarrow> pyval \<Rightarrow> pyval list option" where
  "entries h (ModuleRef a) = (case h a of None \<Rightarrow> None | Some ob \<Rightarrow> Some (map snd (attrs ob)))"
| "entries h (PyDict kvs) = Some (map snd kvs)"
| "entries h (PySeq vs) = Some vs"
| "entries h (Parameter p) = None"
| "entries h Opaque = None"

fun lookup :: "heap \<Rightarrow> pyval \<Rightarrow> nat list \<Rightarrow> pyval option" where
  "lookup h v [] = Some v"
| "lookup h v (i # p) =
     (case entries h v of
        None \<Rightarrow> None
      | Some vs \<Rightarrow> if i < length vs then lookup h (vs ! i) p else None)"

definition reachable_modules :: "heap \<Rightarrow> pyval \<Rightarrow> addr set" where
  "reachable_modules h v = {b. \<exists>p. lookup h v p = Some (ModuleRef b)}"

definition param_paths :: "heap \<Rightarrow> pyval \<Rightarrow> nat list set" where
  "param_paths h v = {p. \<exists>q. lookup h v p = Some (Parameter q)}"

text \<open>The modules nested in a module: those reached by a path of at least one step.\<close>

definition nested_modules :: "heap \<Rightarrow> addr \<Rightarrow> addr set" where
  "nested_modules h a = {b. \<exists>i p. lookup h (ModuleRef a) (i # p) = Some (ModuleRef b)}"


text \<open>
  The attribute graph below a value is a tree of depth at most \<open>N\<close> when no path is
  longer than \<open>N\<close> (so no module reaches itself), and every module reference on a path
  points to an object of the store.
\<close>

definition well_formed :: "heap \<Rightarrow> pyval \<Rightarrow> nat \<Rightarrow> bool" where
  "well_formed h v N \<longleftrightarrow>
     (\<forall>p. lookup h v p \<noteq> None \<longrightarrow> length p \<le> N) \<and>
     (\<forall>p b. lookup h v p = Some (ModuleRef b) \<longrightarrow> h b \<noteq> None)"

text \<open>
  The module with its nested modules, and the store in which the flag of every module of
  a set has been assigned.
\<close>

definition mark :: "bool \<Rightarrow> addr set \<Rightarrow> heap \<Rightarrow> heap" where
  "mark b S h = (\<lambda>x. if x \<in> S then map_option (\<lambda>ob. ob\<lparr>training := b\<rparr>) (h x) else h x)"

definition module_tree :: "heap \<Rightarrow> addr \<Rightarrow> addr set" where
  "module_tree h a = insert a (nested_modules h a)"

text \<open>
  A list of paths lists the parameters below a value when it holds every path that ends
  in a \<open>Parameter\<close> exactly once, in lexicographic order (declaration order first, then
  the order inside containers), and the parameters are the values at these paths, in
  this order.
\<close>

definition lists_params :: "heap \<Rightarrow> pyval \<Rightarrow> nat list list \<Rightarrow> addr list \<Rightarrow> bool" where
  "lists_params h v ps qs \<longleftrightarrow>
     sorted_wrt (<) ps \<and> set ps = param_paths h v \<and>
     map (lookup h v) ps = map (\<lambda>q. Some (Parameter q)) qs"

subsection \<open>What the traversal of child modules returns\<close>

lemma collect_eq:
  "collect f xs =
     (if \<forall>x\<in>set xs. f x \<noteq> None then Some (concat (map (\<lambda>x. the (f x)) xs)) else None)"
  by (induction xs) (auto split: option.splits)

lemma collect_Some_iff:
  "collect f xs = Some ys \<longleftrightarrow> (\<forall>x\<in>set xs. f x \<noteq> None) \<and> ys = concat (map (\<lambda>x. the (f x)) xs)"
  by (auto simp: collect_eq)

lemma collect_snd:
  "collect (\<lambda>(k, v). f v) kvs = collect f (map snd kvs)"
  by (induction kvs) (auto split: option.splits)

lemma reachable_modules_unfold:
  "reachable_modules h v =
     (case v of ModuleRef a \<Rightarrow> {a} | _ \<Rightarrow> {}) \<union>
     (case entries h v of None \<Rightarrow> {} | Some vs \<Rightarrow> (\<Union>w\<in>set vs. reachable_modules h w))"
proof -
  have "b \<in> reachable_modules h v \<longleftrightarrow>
        b \<in> (case v of ModuleRef a \<Rightarrow> {a} | _ \<Rightarrow> {}) \<union>
     (case entries h v of None \<Rightarrow> {} | Some vs \<Rightarrow> (\<Union>w\<in>set vs. reachable_modules h w))" for b
  proof
    assume "b \<in> reachable_modules h v"
    then obtain p where p: "lookup h v p = Some (ModuleRef b)"
      by (auto simp: reachable_modules_def)
    show "b \<in> (case v of ModuleRef a \<Rightarrow> {a} | _ \<Rightarrow> {}) \<union>
     (case entries h v of None \<Rightarrow> {} | Some vs \<Rightarrow> (\<Union>w\<in>set vs. reachable_modules h w))"
    proof (cases p)
      case Nil
      with p show ?thesis by simp
    next
      case (Cons i q)
      with p obtain vs where "entries h v = Some vs" "i < length vs"
        "lookup h (vs ! i) q = Some (ModuleRef b)"
        by (auto split: option.splits if_splits)
      then show ?thesis
        by (auto simp: reachable_modules_def intro!: bexI[of _ "vs ! i"])
    qed
  next
    assume "b \<in> (case v of ModuleRef a \<Rightarrow> {a} | _ \<Rightarrow> {}) \<union>
     (case entries h v of None \<Rightarrow> {} | Some vs \<Rightarrow> (\<Union>w\<in>set vs. reachable_modules h w))"
    then have "b \<in> (case v of ModuleRef a \<Rightarrow> {a} | _ \<Rightarrow> {}) \<or>
      b \<in> (case entries h v of None \<Rightarrow> {} | Some vs \<Rightarrow> (\<Union>w\<in>set vs. reachable_modules h w))"
      by simp
    then show "b \<in> reachable_modules h v"
    proof
      assume "b \<in> (case v of ModuleRef a \<Rightarrow> {a} | _ \<Rightarrow> {})"
      then have "v = ModuleRef b" by (cases v) auto
      then have "lookup h v [] = Some (ModuleRef b)" by simp
      then show ?thesis unfolding reachable_modules_def by blast
    next
      assume "b \<in> (case entries h v of None \<Rightarrow> {} | Some vs \<Rightarrow> (\<Union>w\<in>set vs. reachable_modules h w))"
      then obtain vs w where 2: "entries h v = Some vs" "w \<in> set vs" "b \<in> reachable_modules h w"
        by (cases "entries h v") auto
      then obtain i p where "i < length vs" "vs ! i = w" "lookup h w p = Some (ModuleRef b)"
        by (auto simp: reachable_modules_def in_set_conv_nth)
      with 2 have "lookup h v (i # p) = Some (ModuleRef b)" by simp
      then show ?thesis unfolding reachable_modules_def by blast
    qed
  qed
  then show ?thesis by blast
qed

lemma child_modules_reachable:
  "child_modules n h v = Some ms \<Longrightarrow> set ms = reachable_modules h v"
proof (induction n arbitrary: v ms)
  case 0
  then show ?case by simp
next
  case (Suc n)
  show ?case
  proof (cases v)
    case (Parameter p)
    with Suc.prems have "ms = []" by simp
    moreover have "reachable_modules h v = {}"
      using Parameter by (subst reachable_modules_unfold) simp
    ultimately show ?thesis by simp
  next
    case (ModuleRef a)
    with Suc.prems obtain ob ms' where ob: "h a = Some ob"
      and ms': "child_modules n h (PyDict (attrs ob)) = Some ms'" and ms: "ms = a # ms'"
      by (auto split: option.splits)
    from Suc.IH[OF ms'] have "set ms' = reachable_modules h (PyDict (attrs ob))" .
    also have "\<dots> = (\<Union>w\<in>set (map snd (attrs ob)). reachable_modules h w)"
      by (subst reachable_modules_unfold) simp
    finally show ?thesis using ob ms ModuleRef
      by (subst reachable_modules_unfold) simp
  next
    case (PyDict kvs)
    with Suc.prems have c: "collect (\<lambda>v. child_modules n h v) (map snd kvs) = Some ms"
      by (simp add: collect_snd)
    then have "set ms = (\<Union>w\<in>set (map snd kvs). set (the (child_modules n h w)))"
      by (auto simp: collect_Some_iff)
    also have "\<dots> = (\<Union>w\<in>set (map snd kvs). reachable_modules h w)"
      using c Suc.IH by (auto simp: collect_Some_iff)
    finally show ?thesis using PyDict
      by (subst reachable_modules_unfold) simp
  next
    case (PySeq vs)
    with Suc.prems have c: "collect (\<lambda>v. child_modules n h v) vs = Some ms"
      by simp
    then have "set ms = (\<Union>w\<in>set vs. set (the (child_modules n h w)))"
      by (auto simp: collect_Some_iff)
    also have "\<dots> = (\<Union>w\<in>set vs. reachable_modules h w)"
      using c Suc.IH by (auto simp: collect_Some_iff)
    finally show ?thesis using PySeq
      by (subst reachable_modules_unfold) simp
  next
    case Opaque
    with Suc.prems have "ms = []" by simp
    moreover have "reachable_modules h v = {}"
      using Opaque by (subst reachable_modules_unfold) simp
    ultimately show ?thesis by simp
  qed
qed


lemma child_modules_entry:
  assumes "child_modules n h v = Some ms" "entries h v = Some vs" "u \<in> set vs"
  shows "\<exists>k<n. child_modules k h u \<noteq> None"
proof (cases n)
  case 0
  with assms show ?thesis by simp
next
  case (Suc n1)
  show ?thesis
  proof (cases v)
    case (ModuleRef a)
    with assms Suc obtain ob ms' where ob: "h a = Some ob" "vs = map snd (attrs ob)"
      and ms': "child_modules n1 h (PyDict (attrs ob)) = Some ms'"
      by (auto split: option.splits)
    then obtain n2 where n2: "n1 = Suc n2" by (cases n1) auto
    with ms' have "collect (\<lambda>v. child_modules n2 h v) (map snd (attrs ob)) = Some ms'"
      by (simp add: collect_snd)
    with assms(3) ob have "child_modules n2 h u \<noteq> None"
      by (auto simp: collect_Some_iff)
    then show ?thesis using Suc n2 by (intro exI[of _ n2]) simp
  next
    case (PyDict kvs)
    with assms Suc have "collect (\<lambda>v. child_modules n1 h v) (map snd kvs) = Some ms" "vs = map snd kvs"
      by (auto simp: collect_snd)
    with assms(3) have "child_modules n1 h u \<noteq> None"
      by (auto simp: collect_Some_iff)
    then show ?thesis using Suc by (intro exI[of _ n1]) simp
  next
    case (PySeq ws)
    with assms Suc have "collect (\<lambda>v. child_modules n1 h v) vs = Some ms"
      by auto
    with assms(3) have "child_modules n1 h u \<noteq> None"
      by (auto simp: collect_Some_iff)
    then show ?thesis using Suc by (intro exI[of _ n1]) simp
  qed (use assms in auto)
qed

lemma child_modules_descend:
  "child_modules n h v = Some ms \<Longrightarrow> lookup h v (i # p) = Some w \<Longrightarrow>
     \<exists>k<n. child_modules k h w \<noteq> None"
proof (induction p arbitrary: n v ms i)
  case Nil
  then obtain vs where "entries h v = Some vs" "i < length vs" "vs ! i = w"
    by (auto split: option.splits if_splits)
  with Nil(1) show ?case using child_modules_entry[of n h v ms vs w] by auto
next
  case (Cons j p)
  from Cons.prems(2) obtain vs where vs: "entries h v = Some vs" "i < length vs"
    "lookup h (vs ! i) (j # p) = Some w"
    by (auto split: option.splits if_splits)
  with Cons.prems(1) obtain k where k: "k < n" "child_modules k h (vs ! i) \<noteq> None"
    using child_modules_entry[of n h v ms vs "vs ! i"] by auto
  then obtain ms' where "child_modules k h (vs ! i) = Some ms'" by auto
  from Cons.IH[OF this vs(3)] k(1) show ?case by (meson less_trans)
qed

lemma child_modules_not_self:
  "child_modules n h (ModuleRef a) = Some ms \<Longrightarrow> a \<notin> nested_modules h a"
proof (induction n arbitrary: ms rule: less_induct)
  case (less n)
  show ?case
  proof
    assume "a \<in> nested_modules h a"
    then obtain i p where "lookup h (ModuleRef a) (i # p) = Some (ModuleRef a)"
      by (auto simp: nested_modules_def)
    from child_modules_descend[OF less.prems this]
    obtain k ms' where k: "k < n" "child_modules k h (ModuleRef a) = Some ms'" by auto
    from less.IH[OF this] \<open>a \<in> nested_modules h a\<close> show False by simp
  qed
qed

lemma nested_modules_eq:
  assumes ob: "h a = Some ob"
  shows "nested_modules h a = reachable_modules h (PyDict (attrs ob))"
proof -
  have eq: "lookup h (ModuleRef a) (i # p) = lookup h (PyDict (attrs ob)) (i # p)" for i p
    using ob by simp
  have "b \<in> nested_modules h a \<longleftrightarrow> b \<in> reachable_modules h (PyDict (attrs ob))" for b
  proof
    assume "b \<in> nested_modules h a"
    then obtain i p where "lookup h (PyDict (attrs ob)) (i # p) = Some (ModuleRef b)"
      unfolding nested_modules_def eq by blast
    then show "b \<in> reachable_modules h (PyDict (attrs ob))"
      unfolding reachable_modules_def by blast
  next
    assume "b \<in> reachable_modules h (PyDict (attrs ob))"
    then obtain p where p: "lookup h (PyDict (attrs ob)) p = Some (ModuleRef b)"
      unfolding reachable_modules_def by blast
    then obtain i q where "p = i # q" by (cases p) auto
    with p have "lookup h (ModuleRef a) (i # q) = Some (ModuleRef b)"
      by (simp only: eq)
    then show "b \<in> nested_modules h a"
      unfolding nested_modules_def by blast
  qed
  then show ?thesis by blast
qed

lemma Module_children_nested:
  assumes "Module_children n h a = Some ms"
  shows "set ms = nested_modules h a"
proof -
  from assms obtain ob where ob: "h a = Some ob"
    and ms: "child_modules n h (PyDict (attrs ob)) = Some ms"
    by (auto simp: Module_children_def split: option.splits)
  show ?thesis
    using child_modules_reachable[OF ms] nested_modules_eq[of h a ob] ob by simp
qed

subsection \<open>Termination of the traversal on trees\<close>

lemma collect_cong_Some:
  "collect f xs = Some ys \<Longrightarrow> (\<And>x y. x \<in> set xs \<Longrightarrow> f x = Some y \<Longrightarrow> g x = Some y) \<Longrightarrow>
   collect g xs = Some ys"
  by (induction xs arbitrary: ys) (auto split: option.splits)

lemma child_modules_Suc:
  "child_modules n h v = Some ms \<Longrightarrow> child_modules (Suc n) h v = Some ms"
proof (induction n arbitrary: v ms)
  case 0
  then show ?case by simp
next
  case (Suc n)
  show ?case
  proof (cases v)
    case (ModuleRef a)
    with Suc.prems obtain ob ms' where ob: "h a = Some ob"
      and ms': "child_modules n h (PyDict (attrs ob)) = Some ms'" and ms: "ms = a # ms'"
      by (auto split: option.splits)
    from Suc.IH[OF ms'] ob ms ModuleRef show ?thesis by simp
  next
    case (PyDict kvs)
    with Suc.prems have "collect (\<lambda>v. child_modules n h v) (map snd kvs) = Some ms"
      by (simp add: collect_snd)
    then have "collect (\<lambda>v. child_modules (Suc n) h v) (map snd kvs) = Some ms"
      by (rule collect_cong_Some) (rule Suc.IH)
    with PyDict show ?thesis by (simp add: collect_snd)
  next
    case (PySeq vs)
    with Suc.prems have "collect (\<lambda>v. child_modules n h v) vs = Some ms"
      by simp
    then have "collect (\<lambda>v. child_modules (Suc n) h v) vs = Some ms"
      by (rule collect_cong_Some) (rule Suc.IH)
    with PySeq show ?thesis by simp
  qed (use Suc.prems in auto)
qed

lemma child_modules_mono:
  "child_modules n h v = Some ms \<Longrightarrow> n \<le> m \<Longrightarrow> child_modules m h v = Some ms"
  by (induction m) (auto simp: le_Suc_eq child_modules_Suc)

lemma well_formed_entry:
  assumes "well_formed h v N" "entries h v = Some vs" "u \<in> set vs"
  shows "\<exists>M. N = Suc M \<and> well_formed h u M"
proof -
  from assms(3) obtain i where i: "i < length vs" "vs ! i = u"
    by (auto simp: in_set_conv_nth)
  have step: "lookup h v (i # p) = lookup h u p" for p
    using assms(2) i by simp
  have "lookup h v [i] = Some u" unfolding step by simp
  then have "lookup h v [i] \<noteq> None" by simp
  with assms(1) have "length [i] \<le> N" unfolding well_formed_def by blast
  then obtain M where M: "N = Suc M" by (cases N) auto
  have "well_formed h u M"
    unfolding well_formed_def
  proof (intro conjI allI impI)
    fix p assume "lookup h u p \<noteq> None"
    then have "lookup h v (i # p) \<noteq> None" unfolding step .
    with assms(1) have "length (i # p) \<le> N" unfolding well_formed_def by blast
    with M show "length p \<le> M" by simp
  next
    fix p b assume "lookup h u p = Some (ModuleRef b)"
    then have "lookup h v (i # p) = Some (ModuleRef b)" unfolding step .
    with assms(1) show "h b \<noteq> None" unfolding well_formed_def by blast
  qed
  with M show ?thesis by blast
qed

lemma collect_not_None:
  "(\<And>x. x \<in> set xs \<Longrightarrow> f x \<noteq> None) \<Longrightarrow> collect f xs \<noteq> None"
  by (simp add: collect_eq)

lemma child_modules_returns:
  "well_formed h v N \<Longrightarrow> child_modules (2 * N + 2) h v \<noteq> None"
proof (induction N arbitrary: v)
  case 0
  have no: "entries h v = Some vs \<Longrightarrow> vs = []" for vs
    using well_formed_entry[OF 0, of vs "hd vs"] by (cases vs) auto
  show ?case
  proof (cases v)
    case (ModuleRef a)
    have "lookup h v [] = Some (ModuleRef a)" using ModuleRef by simp
    with 0 have "h a \<noteq> None" unfolding well_formed_def by blast
    then obtain ob where ob: "h a = Some ob" by auto
    with no[of "map snd (attrs ob)"] ModuleRef have "attrs ob = []" by simp
    with ob ModuleRef show ?thesis by (simp add: numeral_2_eq_2)
  next
    case (PyDict kvs)
    with no[of "map snd kvs"] show ?thesis by (simp add: numeral_2_eq_2)
  next
    case (PySeq vs)
    with no[of vs] show ?thesis by (simp add: numeral_2_eq_2)
  qed (simp_all add: numeral_2_eq_2)
next
  case (Suc N)
  have ent: "child_modules (2 * N + 2) h u \<noteq> None"
    if "entries h v = Some vs" "u \<in> set vs" for vs u
  proof -
    from well_formed_entry[OF Suc.prems that] have "well_formed h u N" by simp
    then show ?thesis by (rule Suc.IH)
  qed
  have ent': "child_modules (2 * N + 3) h u \<noteq> None"
    if "entries h v = Some vs" "u \<in> set vs" for vs u
  proof -
    from ent[OF that] obtain ms where "child_modules (2 * N + 2) h u = Some ms" by auto
    from child_modules_Suc[OF this] show ?thesis by (simp add: eval_nat_numeral)
  qed
  have fuel: "2 * Suc N + 2 = Suc (Suc (2 * N + 2))" "2 * N + 3 = Suc (2 * N + 2)" by simp_all
  show ?case
  proof (cases v)
    case (ModuleRef a)
    have "lookup h v [] = Some (ModuleRef a)" using ModuleRef by simp
    with Suc.prems have "h a \<noteq> None" unfolding well_formed_def by blast
    then obtain ob where ob: "h a = Some ob" by auto
    have "collect (\<lambda>v. child_modules (2 * N + 2) h v) (map snd (attrs ob)) \<noteq> None"
      using ent[of "map snd (attrs ob)"] ob ModuleRef by (intro collect_not_None) simp
    then have "child_modules (Suc (2 * N + 2)) h (PyDict (attrs ob)) \<noteq> None"
      by (simp add: collect_snd)
    with ob ModuleRef show ?thesis unfolding fuel by auto
  next
    case (PyDict kvs)
    have "collect (\<lambda>v. child_modules (2 * N + 3) h v) (map snd kvs) \<noteq> None"
      using ent'[of "map snd kvs"] PyDict by (intro collect_not_None) simp
    with PyDict show ?thesis unfolding fuel by (simp add: collect_snd)
  next
    case (PySeq vs)
    have "collect (\<lambda>v. child_modules (2 * N + 3) h v) vs \<noteq> None"
      using ent'[of vs] PySeq by (intro collect_not_None) simp
    with PySeq show ?thesis unfolding fuel by simp
  qed (simp_all add: fuel)
qed


lemma entries_same_attrs:
  "(\<And>x. map_option attrs (h' x) = map_option attrs (h x)) \<Longrightarrow> entries h' v = entries h v"
proof (cases v)
  case (ModuleRef a)
  assume "\<And>x. map_option attrs (h' x) = map_option attrs (h x)"
  from this[of a] ModuleRef show ?thesis
    by (cases "h a"; cases "h' a") auto
qed simp_all

lemma lookup_same_attrs:
  assumes "\<And>x. map_option attrs (h' x) = map_option attrs (h x)"
  shows "lookup h' v p = lookup h v p"
  by (induction p arbitrary: v)
     (auto simp: entries_same_attrs[of h' h, OF assms] split: option.splits)

lemma collect_cong:
  "(\<And>x. x \<in> set xs \<Longrightarrow> f x = g x) \<Longrightarrow> collect f xs = collect g xs"
  by (induction xs) (auto split: option.splits)

lemma child_modules_same_attrs:
  assumes "\<And>x. map_option attrs (h' x) = map_option attrs (h x)"
  shows "child_modules n h' v = child_modules n h v"
proof (induction n arbitrary: v)
  case 0
  show ?case by simp
next
  case (Suc n)
  have IH: "child_modules n h' = child_modules n h"
    by (rule ext) (rule Suc)
  show ?case
  proof (cases v)
    case (ModuleRef a)
    from assms[of a] show ?thesis
      by (cases "h a"; cases "h' a") (auto simp: ModuleRef IH)
  qed (simp_all add: IH)
qed

lemma attrs_mark: "map_option attrs (mark b S h x) = map_option attrs (h x)"
  by (cases "h x") (simp_all add: mark_def)

lemma set_training_mark: "set_training b h a = mark b {a} h"
  by (rule ext) (simp add: set_training_def mark_def split: option.splits)

lemma mark_mark: "mark c T (mark b S h) = (\<lambda>x. if x \<in> T then mark c T h x else mark b S h x)"
  by (rule ext) (simp add: mark_def option.map_comp comp_def)

lemma mark_union: "mark b T (mark b S h) = mark b (S \<union> T) h"
  by (rule ext) (simp add: mark_def option.map_comp comp_def)

lemma mark_override: "mark c S (mark b S h) = mark c S h"
  by (rule ext) (simp add: mark_def option.map_comp comp_def)

lemma foldl_set_training: "foldl (set_training b) h ms = mark b (set ms) h"
proof (induction ms arbitrary: h)
  case Nil
  show ?case by (rule ext) (simp add: mark_def)
next
  case (Cons m ms)
  have "foldl (set_training b) h (m # ms) = mark b (set ms) (set_training b h m)"
    by (simp add: Cons)
  also have "\<dots> = mark b (set (m # ms)) h"
    by (simp add: set_training_mark mark_union)
  finally show ?case .
qed

lemma Module_children_mark: "Module_children n (mark b S h) a = Module_children n h a"
proof -
  have "child_modules n (mark b S h) v = child_modules n h v" for v
    by (rule child_modules_same_attrs) (rule attrs_mark)
  then show ?thesis
    using attrs_mark[of b S h a]
    by (cases "h a"; cases "mark b S h a") (auto simp: Module_children_def)
qed

lemma nested_modules_mark: "nested_modules (mark b S h) a = nested_modules h a"
proof -
  have "lookup (mark b S h) v p = lookup h v p" for v p
    by (rule lookup_same_attrs) (rule attrs_mark)
  then show ?thesis unfolding nested_modules_def by (simp only:)
qed

lemma set_mode_eq:
  assumes "Module_children n h a = Some ms"
  shows "set_mode b n h a = Some (mark b (module_tree h a) h)"
proof -
  have "Module_children n (set_training b h a) a = Some ms"
    using assms by (simp add: set_training_mark Module_children_mark)
  moreover have "set ms = nested_modules h a"
    by (rule Module_children_nested[OF assms])
  ultimately show ?thesis
    by (simp add: set_mode_def foldl_set_training set_training_mark mark_union module_tree_def)
qed

lemma Module_children_returns:
  assumes "well_formed h (ModuleRef a) N" "2 * N + 2 \<le> n"
  shows "\<exists>ms. Module_children n h a = Some ms"
proof -
  from child_modules_returns[OF assms(1)] obtain ms
    where "child_modules (2 * N + 2) h (ModuleRef a) = Some ms" by auto
  from child_modules_mono[OF this assms(2)]
  have full: "child_modules n h (ModuleRef a) = Some ms" .
  then obtain k where n: "n = Suc k"
    by (cases n) auto
  with full obtain ob ms' where ob: "h a = Some ob"
    and "child_modules k h (PyDict (attrs ob)) = Some ms'"
    by (auto split: option.splits)
  from child_modules_Suc[OF this(2)] ob n show ?thesis
    by (simp add: Module_children_def)
qed

lemma module_tree_allocated:
  assumes "well_formed h (ModuleRef a) N" "x \<in> module_tree h a"
  shows "h x \<noteq> None"
proof -
  have "\<exists>p. lookup h (ModuleRef a) p = Some (ModuleRef x)"
  proof (cases "x = a")
    case True
    have "lookup h (ModuleRef a) [] = Some (ModuleRef a)" by simp
    with True show ?thesis by blast
  next
    case False
    with assms(2) show ?thesis
      unfolding module_tree_def nested_modules_def by blast
  qed
  with assms(1) show ?thesis unfolding well_formed_def by blast
qed

lemma module_tree_mark: "module_tree (mark b S h) a = module_tree h a"
  by (simp add: module_tree_def nested_modules_mark)

lemma well_formed_leaf:
  assumes "entries h v = None" "\<And>b. v \<noteq> ModuleRef b"
  shows "well_formed h v N"
  unfolding well_formed_def
proof (intro conjI allI impI)
  fix p assume "lookup h v p \<noteq> None"
  with assms(1) have "p = []" by (cases p) auto
  then show "length p \<le> N" by simp
next
  fix p b assume p: "lookup h v p = Some (ModuleRef b)"
  with assms(1) have "p = []" by (cases p) auto
  with p assms(2) show "h b \<noteq> None" by simp
qed

lemma well_formed_node:
  assumes "entries h v = Some vs" "\<And>u. u \<in> set vs \<Longrightarrow> well_formed h u N"
  shows "well_formed h v (Suc N)"
  unfolding well_formed_def
proof (intro conjI allI impI)
  fix p assume p: "lookup h v p \<noteq> None"
  show "length p \<le> Suc N"
  proof (cases p)
    case (Cons i q)
    with p assms(1) have "i < length vs" "lookup h (vs ! i) q \<noteq> None"
      by (auto split: if_splits)
    with assms(2)[of "vs ! i"] have "length q \<le> N"
      unfolding well_formed_def by auto
    with Cons show ?thesis by simp
  qed simp
next
  fix p b assume p: "lookup h v p = Some (ModuleRef b)"
  show "h b \<noteq> None"
  proof (cases p)
    case Nil
    with p assms(1) show ?thesis by (auto split: option.splits)
  next
    case (Cons i q)
    with p assms(1) have "i < length vs" "lookup h (vs ! i) q = Some (ModuleRef b)"
      by (auto split: if_splits)
    with assms(2)[of "vs ! i"] show ?thesis
      unfolding well_formed_def by auto
  qed
qed

subsection \<open>The list of \<open>_children\<close>\<close>

definition heap_residual :: heap where
  "heap_residual = [0 \<mapsto> \<lparr>training = True, attrs = [(''fn'', ModuleRef 1)]\<rparr>,
                    1 \<mapsto> \<lparr>training = True, attrs = []\<rparr>]"

lemma well_formed_heap_residual: "well_formed heap_residual (ModuleRef 0) 2"
proof -
  have e1: "entries heap_residual (ModuleRef 1) = Some []"
    and e0: "entries heap_residual (ModuleRef 0) = Some [ModuleRef 1]"
    by (simp_all add: heap_residual_def)
  have 1: "well_formed heap_residual (ModuleRef 1) (Suc 0)"
    by (rule well_formed_node[OF e1]) simp
  have "well_formed heap_residual (ModuleRef 0) (Suc (Suc 0))"
    using 1 by (intro well_formed_node[OF e0]) auto
  then show ?thesis by (simp add: numeral_2_eq_2)
qed

text \<open>
  C5 (as stated, refuted). The claim has \<open>m._children()\<close> list \<open>m\<close> itself first. A
  \<open>Residual\<close> at address 0 around a parameterless module at address 1 has the single
  attribute \<open>fn\<close>; its \<open>_children()\<close> is the list of the nested module alone, because
  \<open>_children\<close> passes \<open>self.__dict__\<close>, a dict, to \<open>_child_modules\<close>, and only the
  \<open>Module\<close> case of that function puts the value itself in front.
\<close>

theorem children_without_self:
  "Module_children 3 heap_residual 0 = Some [1] \<and> 0 \<notin> set [1::addr]"
  by (simp add: Module_children_def heap_residual_def numeral_3_eq_3)

text \<open>
  C5 (amended). On a module tree of depth at most \<open>N\<close>, \<open>m._children()\<close> returns (a
  recursion depth of \<open>2 * N + 2\<close> suffices). The list it returns holds exactly the modules
  nested in \<open>m\<close> (reached from \<open>m\<close> by at least one attribute or container step), \<open>m\<close>
  itself is not among them, and it is \<open>_child_modules(m)\<close>, applied to the module rather
  than to its \<open>__dict__\<close>, that returns \<open>m\<close> first, followed by that list.
\<close>

theorem children_nested:
  assumes "well_formed h (ModuleRef a) N" "2 * N + 2 \<le> n"
  shows "\<exists>ms. Module_children n h a = Some ms \<and>
           set ms = nested_modules h a \<and> a \<notin> set ms \<and>
           child_modules (Suc n) h (ModuleRef a) = Some (a # ms)"
proof -
  from Module_children_returns[OF assms] obtain ms
    where c: "Module_children n h a = Some ms" by blast
  then obtain ob where ob: "h a = Some ob"
    and ms: "child_modules n h (PyDict (attrs ob)) = Some ms"
    by (auto simp: Module_children_def split: option.splits)
  have 1: "set ms = nested_modules h a"
    by (rule Module_children_nested[OF c])
  have 3: "child_modules (Suc n) h (ModuleRef a) = Some (a # ms)"
    using ob ms by simp
  from child_modules_not_self[OF 3] 1 have "a \<notin> set ms" by simp
  with c 1 3 show ?thesis by blast
qed

theorem children_nested_witness:
  "well_formed heap_residual (ModuleRef 0) 2 \<and> 2 * 2 + 2 \<le> (6::nat) \<and>
   Module_children 6 heap_residual 0 = Some [1] \<and>
   set [1] = nested_modules heap_residual 0 \<and> 0 \<notin> set [1::addr] \<and>
   child_modules (Suc 6) heap_residual (ModuleRef 0) = Some [0, 1]"
proof -
  have n: "2 * 2 + 2 \<le> (6::nat)" by simp
  have c: "Module_children 6 heap_residual 0 = Some [1]"
    by (simp add: Module_children_def heap_residual_def eval_nat_numeral)
  from children_nested[OF well_formed_heap_residual n] c
  have "set [1] = nested_modules heap_residual 0 \<and> 0 \<notin> set [1::addr] \<and>
   child_modules (Suc 6) heap_residual (ModuleRef 0) = Some [0, 1]"
    by auto
  with well_formed_heap_residual n c show ?thesis by blast
qed

subsection \<open>\<open>eval\<close> and \<open>train\<close>\<close>

text \<open>
  A \<open>Sequential\<close> at address 0 whose tuple \<open>modules\<close> holds a \<open>Linear\<close> (address 1, in
  evaluation mode, with parameters 10 and 11) and a \<open>ReLU\<close> (address 2, in training mode).
\<close>

definition heap_sequential :: heap where
  "heap_sequential =
     [0 \<mapsto> \<lparr>training = True, attrs = [(''modules'', PySeq [ModuleRef 1, ModuleRef 2])]\<rparr>,
      1 \<mapsto> \<lparr>training = False,
            attrs = [(''in_features'', Opaque), (''out_features'', Opaque),
                     (''weight'', Parameter 10), (''bias'', Parameter 11)]\<rparr>,
      2 \<mapsto> \<lparr>training = True, attrs = []\<rparr>]"

lemma well_formed_heap_sequential: "well_formed heap_sequential (ModuleRef 0) 3"
proof -
  have leaf: "well_formed heap_sequential (Parameter q) N"
    "well_formed heap_sequential Opaque N" for q N
    by (rule well_formed_leaf; simp)+
  have e1: "entries heap_sequential (ModuleRef 1) =
      Some [Opaque, Opaque, Parameter 10, Parameter 11]"
    and e2: "entries heap_sequential (ModuleRef 2) = Some []"
    and e0: "entries heap_sequential (ModuleRef 0) = Some [PySeq [ModuleRef 1, ModuleRef 2]]"
    by (simp_all add: heap_sequential_def)
  have e3: "entries heap_sequential (PySeq [ModuleRef 1, ModuleRef 2]) =
      Some [ModuleRef 1, ModuleRef 2]"
    by simp
  have 1: "well_formed heap_sequential (ModuleRef 1) (Suc 0)"
    using leaf by (intro well_formed_node[OF e1]) auto
  have 2: "well_formed heap_sequential (ModuleRef 2) (Suc 0)"
    by (rule well_formed_node[OF e2]) simp
  have 3: "well_formed heap_sequential (PySeq [ModuleRef 1, ModuleRef 2]) (Suc (Suc 0))"
    using 1 2 by (intro well_formed_node[OF e3]) auto
  have "well_formed heap_sequential (ModuleRef 0) (Suc (Suc (Suc 0)))"
    using 3 by (intro well_formed_node[OF e0]) auto
  then show ?thesis by (simp add: numeral_3_eq_3)
qed

text \<open>
  C3. On a module tree of depth at most \<open>N\<close>, whatever the flags of its modules are,
  \<open>eval()\<close> and \<open>train()\<close> return (a recursion depth of \<open>2 * N + 2\<close> suffices). After
  \<open>eval()\<close> the root and every nested module have \<open>training = False\<close>, after \<open>train()\<close>
  they have \<open>training = True\<close>, nothing else of these objects and no other object
  changes. Both are idempotent, and \<open>eval()\<close> followed by \<open>train()\<close> (or the other way
  round) ends in the state of the last call alone.
\<close>

theorem eval_train_flags:
  assumes wf: "well_formed h (ModuleRef a) N" and n: "2 * N + 2 \<le> n"
  shows "\<exists>he ht.
      Module_eval n h a = Some he \<and> Module_train n h a = Some ht \<and>
      (\<forall>x\<in>module_tree h a. \<exists>ob. h x = Some ob \<and> he x = Some (ob\<lparr>training := False\<rparr>)
                                          \<and> ht x = Some (ob\<lparr>training := True\<rparr>)) \<and>
      (\<forall>x. x \<notin> module_tree h a \<longrightarrow> he x = h x \<and> ht x = h x) \<and>
      Module_eval n he a = Some he \<and> Module_train n ht a = Some ht \<and>
      Module_train n he a = Some ht \<and> Module_eval n ht a = Some he"
proof -
  let ?S = "module_tree h a"
  from Module_children_returns[OF wf n] obtain ms where ms: "Module_children n h a = Some ms"
    by blast
  have ms': "Module_children n (mark b ?S h) a = Some ms" for b
    using ms by (simp add: Module_children_mark)
  have 1: "Module_eval n h a = Some (mark False ?S h)" "Module_train n h a = Some (mark True ?S h)"
    unfolding Module_eval_def Module_train_def by (rule set_mode_eq[OF ms])+
  have 2: "set_mode c n (mark b ?S h) a = Some (mark c ?S h)" for b c
    using set_mode_eq[OF ms', of c b] by (simp add: module_tree_mark mark_override)
  have 3: "\<forall>x\<in>?S. \<exists>ob. h x = Some ob \<and> mark False ?S h x = Some (ob\<lparr>training := False\<rparr>)
                                          \<and> mark True ?S h x = Some (ob\<lparr>training := True\<rparr>)"
  proof
    fix x assume x: "x \<in> ?S"
    then obtain ob where "h x = Some ob"
      using module_tree_allocated[OF wf] by blast
    with x show "\<exists>ob. h x = Some ob \<and> mark False ?S h x = Some (ob\<lparr>training := False\<rparr>)
                                          \<and> mark True ?S h x = Some (ob\<lparr>training := True\<rparr>)"
      by (simp add: mark_def)
  qed
  have 4: "\<forall>x. x \<notin> ?S \<longrightarrow> mark False ?S h x = h x \<and> mark True ?S h x = h x"
    by (simp add: mark_def)
  show ?thesis
    using 1 2 3 4 unfolding Module_eval_def Module_train_def by blast
qed

theorem eval_train_flags_witness:
  "well_formed heap_sequential (ModuleRef 0) 3 \<and> 2 * 3 + 2 \<le> (8::nat) \<and>
   (\<exists>he ht.
      Module_eval 8 heap_sequential 0 = Some he \<and> Module_train 8 heap_sequential 0 = Some ht \<and>
      (\<forall>x\<in>module_tree heap_sequential 0.
          \<exists>ob. heap_sequential x = Some ob \<and> he x = Some (ob\<lparr>training := False\<rparr>)
                                          \<and> ht x = Some (ob\<lparr>training := True\<rparr>)) \<and>
      (\<forall>x. x \<notin> module_tree heap_sequential 0 \<longrightarrow> he x = heap_sequential x \<and> ht x = heap_sequential x) \<and>
      Module_eval 8 he 0 = Some he \<and> Module_train 8 ht 0 = Some ht \<and>
      Module_train 8 he 0 = Some ht \<and> Module_eval 8 ht 0 = Some he)"
proof -
  have n: "2 * 3 + 2 \<le> (8::nat)" by simp
  show ?thesis
    by (intro conjI well_formed_heap_sequential n
          eval_train_flags[OF well_formed_heap_sequential n])
qed

subsection \<open>\<open>parameters\<close>\<close>

lemma param_paths_leaf:
  "param_paths h (Parameter q) = {[]}" "param_paths h Opaque = {}"
proof -
  have "lookup h (Parameter q) p = Some (Parameter q') \<longleftrightarrow> p = [] \<and> q' = q" for p q'
    by (cases p) auto
  then show "param_paths h (Parameter q) = {[]}" by (auto simp: param_paths_def)
  have "lookup h Opaque p \<noteq> Some (Parameter q')" for p q'
    by (cases p) auto
  then show "param_paths h Opaque = {}" by (auto simp: param_paths_def)
qed

lemma param_paths_node:
  assumes "entries h v = Some vs"
  shows "param_paths h v = {i # p | i p. i < length vs \<and> p \<in> param_paths h (vs ! i)}"
proof -
  have v: "v \<noteq> Parameter q" for q using assms by auto
  have "p \<in> param_paths h v \<longleftrightarrow> (\<exists>i r. p = i # r \<and> i < length vs \<and> r \<in> param_paths h (vs ! i))" for p
  proof (cases p)
    case Nil
    with v show ?thesis by (simp add: param_paths_def)
  next
    case (Cons i r)
    with assms show ?thesis by (auto simp: param_paths_def)
  qed
  then show ?thesis by blast
qed

lemma lists_params_entries:
  assumes "\<And>u. u \<in> set us \<Longrightarrow> lists_params h u (P u) (g u)"
  shows "\<exists>ps. sorted_wrt (<) ps \<and>
           set ps = {i # p | i p. i < length us \<and> p \<in> param_paths h (us ! i)} \<and>
           map (\<lambda>p. lookup h (us ! hd p) (tl p)) ps =
             map (\<lambda>q. Some (Parameter q)) (concat (map g us))"
  using assms
proof (induction us rule: rev_induct)
  case Nil
  show ?case by (intro exI[of _ "[]"]) simp
next
  case (snoc u us)
  let ?n = "length us"
  from snoc obtain ps where ps: "sorted_wrt (<) ps"
    "set ps = {i # p | i p. i < ?n \<and> p \<in> param_paths h (us ! i)}"
    "map (\<lambda>p. lookup h (us ! hd p) (tl p)) ps = map (\<lambda>q. Some (Parameter q)) (concat (map g us))"
    by auto
  from snoc.prems[of u] have u: "sorted_wrt (<) (P u)" "set (P u) = param_paths h u"
    "map (lookup h u) (P u) = map (\<lambda>q. Some (Parameter q)) (g u)"
    by (simp_all add: lists_params_def)
  let ?new = "map ((#) ?n) (P u)"
  have 1: "sorted_wrt (<) (ps @ ?new)"
    using ps(1,2) u(1) by (auto simp: sorted_wrt_append sorted_wrt_map)
  have 2: "set (ps @ ?new) =
      {i # p | i p. i < length (us @ [u]) \<and> p \<in> param_paths h ((us @ [u]) ! i)}"
    using ps(2) u(2) by (auto simp: nth_append less_Suc_eq)
  have old: "map (\<lambda>p. lookup h ((us @ [u]) ! hd p) (tl p)) ps =
      map (\<lambda>p. lookup h (us ! hd p) (tl p)) ps"
    using ps(2) by (intro map_cong) (auto simp: nth_append)
  have new: "map (\<lambda>p. lookup h ((us @ [u]) ! hd p) (tl p)) ?new = map (lookup h u) (P u)"
    by (simp add: comp_def)
  have 3: "map (\<lambda>p. lookup h ((us @ [u]) ! hd p) (tl p)) (ps @ ?new) =
      map (\<lambda>q. Some (Parameter q)) (concat (map g (us @ [u])))"
    using old new ps(3) u(3) by simp
  from 1 2 3 show ?case by blast
qed

lemma lists_params_node:
  assumes "entries h v = Some us" "\<And>u. u \<in> set us \<Longrightarrow> lists_params h u (P u) (g u)"
  shows "\<exists>ps. lists_params h v ps (concat (map g us))"
proof -
  from lists_params_entries[of us h P g, OF assms(2)] obtain ps where ps: "sorted_wrt (<) ps"
    "set ps = {i # p | i p. i < length us \<and> p \<in> param_paths h (us ! i)}"
    "map (\<lambda>p. lookup h (us ! hd p) (tl p)) ps = map (\<lambda>q. Some (Parameter q)) (concat (map g us))"
    by blast
  have "map (lookup h v) ps = map (\<lambda>p. lookup h (us ! hd p) (tl p)) ps"
    using ps(2) assms(1) by (intro map_cong) auto
  with ps show ?thesis
    unfolding lists_params_def param_paths_node[OF assms(1)] by (intro exI[of _ ps]) simp
qed

lemma lists_params_same_entries:
  assumes "lists_params h v ps qs" "entries h v = Some us" "entries h w = Some us"
  shows "lists_params h w ps qs"
proof -
  have "map (lookup h w) ps = map (lookup h v) ps"
    using assms unfolding lists_params_def param_paths_node[OF assms(2)]
    by (intro map_cong) auto
  with assms(1) show ?thesis
    unfolding lists_params_def param_paths_node[OF assms(2)] param_paths_node[OF assms(3)]
    by simp
qed

lemma unpack_params_lists:
  "unpack_params n h v = Some qs \<Longrightarrow> \<exists>ps. lists_params h v ps qs"
proof (induction n arbitrary: v qs)
  case 0
  then show ?case by simp
next
  case (Suc n)
  have node: "\<exists>ps. lists_params h w ps qs"
    if "entries h w = Some us" "collect (\<lambda>v. unpack_params n h v) us = Some qs" for w us
  proof -
    from that(2) have all: "\<forall>u\<in>set us. unpack_params n h u \<noteq> None"
      and qs: "qs = concat (map (\<lambda>u. the (unpack_params n h u)) us)"
      by (simp_all add: collect_Some_iff)
    have "\<forall>u\<in>set us. \<exists>ps. lists_params h u ps (the (unpack_params n h u))"
      using all Suc.IH by fastforce
    then obtain P where "\<And>u. u \<in> set us \<Longrightarrow> lists_params h u (P u) (the (unpack_params n h u))"
      by metis
    from lists_params_node[OF that(1), of P, OF this] qs show ?thesis by simp
  qed
  show ?case
  proof (cases v)
    case (Parameter q)
    with Suc.prems have "qs = [q]" by simp
    then have "lists_params h v [[]] qs"
      using Parameter by (simp add: lists_params_def param_paths_leaf)
    then show ?thesis by blast
  next
    case (ModuleRef a)
    with Suc.prems obtain ob where ob: "h a = Some ob"
      and qs: "unpack_params n h (PyDict (attrs ob)) = Some qs"
      by (auto split: option.splits)
    from Suc.IH[OF qs] obtain ps where "lists_params h (PyDict (attrs ob)) ps qs" by blast
    then have "lists_params h v ps qs"
      by (rule lists_params_same_entries[where us = "map snd (attrs ob)"])
         (use ob ModuleRef in simp_all)
    then show ?thesis by blast
  next
    case (PyDict kvs)
    with Suc.prems have "collect (\<lambda>v. unpack_params n h v) (map snd kvs) = Some qs"
      by (simp add: collect_snd)
    from node[OF _ this, of v] PyDict show ?thesis by simp
  next
    case (PySeq vs)
    with Suc.prems have "collect (\<lambda>v. unpack_params n h v) vs = Some qs"
      by simp
    from node[OF _ this, of v] PySeq show ?thesis by simp
  next
    case Opaque
    with Suc.prems have "qs = []" by simp
    then have "lists_params h v [] qs"
      using Opaque by (simp add: lists_params_def param_paths_leaf)
    then show ?thesis by blast
  qed
qed


lemma unpack_params_Suc:
  "unpack_params n h v = Some qs \<Longrightarrow> unpack_params (Suc n) h v = Some qs"
proof (induction n arbitrary: v qs)
  case 0
  then show ?case by simp
next
  case (Suc n)
  show ?case
  proof (cases v)
    case (ModuleRef a)
    with Suc.prems obtain ob where ob: "h a = Some ob"
      and qs: "unpack_params n h (PyDict (attrs ob)) = Some qs"
      by (auto split: option.splits)
    from Suc.IH[OF qs] ob ModuleRef show ?thesis by simp
  next
    case (PyDict kvs)
    with Suc.prems have "collect (\<lambda>v. unpack_params n h v) (map snd kvs) = Some qs"
      by (simp add: collect_snd)
    then have "collect (\<lambda>v. unpack_params (Suc n) h v) (map snd kvs) = Some qs"
      by (rule collect_cong_Some) (rule Suc.IH)
    with PyDict show ?thesis by (simp add: collect_snd)
  next
    case (PySeq vs)
    with Suc.prems have "collect (\<lambda>v. unpack_params n h v) vs = Some qs"
      by simp
    then have "collect (\<lambda>v. unpack_params (Suc n) h v) vs = Some qs"
      by (rule collect_cong_Some) (rule Suc.IH)
    with PySeq show ?thesis by simp
  qed (use Suc.prems in auto)
qed

lemma unpack_params_mono:
  "unpack_params n h v = Some qs \<Longrightarrow> n \<le> m \<Longrightarrow> unpack_params m h v = Some qs"
  by (induction m) (auto simp: le_Suc_eq unpack_params_Suc)

lemma unpack_params_returns:
  "well_formed h v N \<Longrightarrow> unpack_params (2 * N + 2) h v \<noteq> None"
proof (induction N arbitrary: v)
  case 0
  have no: "entries h v = Some vs \<Longrightarrow> vs = []" for vs
    using well_formed_entry[OF 0, of vs "hd vs"] by (cases vs) auto
  show ?case
  proof (cases v)
    case (ModuleRef a)
    have "lookup h v [] = Some (ModuleRef a)" using ModuleRef by simp
    with 0 have "h a \<noteq> None" unfolding well_formed_def by blast
    then obtain ob where ob: "h a = Some ob" by auto
    with no[of "map snd (attrs ob)"] ModuleRef have "attrs ob = []" by simp
    with ob ModuleRef show ?thesis by (simp add: numeral_2_eq_2)
  next
    case (PyDict kvs)
    with no[of "map snd kvs"] show ?thesis by (simp add: numeral_2_eq_2)
  next
    case (PySeq vs)
    with no[of vs] show ?thesis by (simp add: numeral_2_eq_2)
  qed (simp_all add: numeral_2_eq_2)
next
  case (Suc N)
  have ent: "unpack_params (2 * N + 2) h u \<noteq> None"
    if "entries h v = Some vs" "u \<in> set vs" for vs u
  proof -
    from well_formed_entry[OF Suc.prems that] have "well_formed h u N" by simp
    then show ?thesis by (rule Suc.IH)
  qed
  have ent': "unpack_params (2 * N + 3) h u \<noteq> None"
    if "entries h v = Some vs" "u \<in> set vs" for vs u
  proof -
    from ent[OF that] obtain ms where "unpack_params (2 * N + 2) h u = Some ms" by auto
    from unpack_params_Suc[OF this] show ?thesis by (simp add: eval_nat_numeral)
  qed
  have fuel: "2 * Suc N + 2 = Suc (Suc (2 * N + 2))" "2 * N + 3 = Suc (2 * N + 2)" by simp_all
  show ?case
  proof (cases v)
    case (ModuleRef a)
    have "lookup h v [] = Some (ModuleRef a)" using ModuleRef by simp
    with Suc.prems have "h a \<noteq> None" unfolding well_formed_def by blast
    then obtain ob where ob: "h a = Some ob" by auto
    have "collect (\<lambda>v. unpack_params (2 * N + 2) h v) (map snd (attrs ob)) \<noteq> None"
      using ent[of "map snd (attrs ob)"] ob ModuleRef by (intro collect_not_None) simp
    then have "unpack_params (Suc (2 * N + 2)) h (PyDict (attrs ob)) \<noteq> None"
      by (simp add: collect_snd)
    with ob ModuleRef show ?thesis unfolding fuel by auto
  next
    case (PyDict kvs)
    have "collect (\<lambda>v. unpack_params (2 * N + 3) h v) (map snd kvs) \<noteq> None"
      using ent'[of "map snd kvs"] PyDict by (intro collect_not_None) simp
    with PyDict show ?thesis unfolding fuel by (simp add: collect_snd)
  next
    case (PySeq vs)
    have "collect (\<lambda>v. unpack_params (2 * N + 3) h v) vs \<noteq> None"
      using ent'[of vs] PySeq by (intro collect_not_None) simp
    with PySeq show ?thesis unfolding fuel by simp
  qed (simp_all add: fuel)
qed

lemma Module_parameters_returns:
  assumes "well_formed h (ModuleRef a) N" "2 * N + 2 \<le> n"
  shows "\<exists>qs. Module_parameters n h a = Some qs \<and> unpack_params n h (ModuleRef a) = Some qs"
proof -
  from unpack_params_returns[OF assms(1)] obtain qs
    where "unpack_params (2 * N + 2) h (ModuleRef a) = Some qs" by auto
  from unpack_params_mono[OF this assms(2)]
  have full: "unpack_params n h (ModuleRef a) = Some qs" .
  then obtain k where n: "n = Suc k"
    by (cases n) auto
  with full obtain ob where ob: "h a = Some ob"
    and "unpack_params k h (PyDict (attrs ob)) = Some qs"
    by (auto split: option.splits)
  from unpack_params_Suc[OF this(2)] ob n full show ?thesis
    by (simp add: Module_parameters_def)
qed

lemma count_list_map_filter:
  "count_list (map f xs) y = length (filter (\<lambda>x. f x = y) xs)"
  by (induction xs) auto

lemma lists_params_length:
  assumes "lists_params h v ps qs"
  shows "length qs = card (param_paths h v)"
proof -
  from assms have "distinct ps" "set ps = param_paths h v"
    "map (lookup h v) ps = map (\<lambda>q. Some (Parameter q)) qs"
    by (simp_all add: lists_params_def strict_sorted_iff)
  from this(3) have "length qs = length ps" by (metis length_map)
  with \<open>distinct ps\<close> \<open>set ps = param_paths h v\<close> show ?thesis
    by (metis distinct_card)
qed

lemma lists_params_count:
  assumes "lists_params h v ps qs"
  shows "count_list qs q = card {p. lookup h v p = Some (Parameter q)}"
proof -
  from assms have d: "distinct ps" and s: "set ps = param_paths h v"
    and m: "map (lookup h v) ps = map (\<lambda>q. Some (Parameter q)) qs"
    by (simp_all add: lists_params_def strict_sorted_iff)
  have "count_list qs q = count_list (map (\<lambda>q. Some (Parameter q)) qs) (Some (Parameter q))"
    by (induction qs) auto
  also have "\<dots> = length (filter (\<lambda>p. lookup h v p = Some (Parameter q)) ps)"
    by (simp only: m[symmetric] count_list_map_filter)
  also have "\<dots> = card ({p. lookup h v p = Some (Parameter q)} \<inter> set ps)"
    by (rule distinct_length_filter[OF d])
  also have "{p. lookup h v p = Some (Parameter q)} \<inter> set ps = {p. lookup h v p = Some (Parameter q)}"
    unfolding s param_paths_def by blast
  finally show ?thesis .
qed

text \<open>
  A module (address 0) with the attributes \<open>a\<close>, a parameter; \<open>d\<close>, a dict holding
  another parameter and the first one again; and \<open>l\<close>, a list holding a module
  (address 1) with one parameter.
\<close>

definition heap_shared :: heap where
  "heap_shared =
     [0 \<mapsto> \<lparr>training = True,
            attrs = [(''a'', Parameter 10),
                     (''d'', PyDict [(''x'', Parameter 11), (''y'', Parameter 10)]),
                     (''l'', PySeq [ModuleRef 1])]\<rparr>,
      1 \<mapsto> \<lparr>training = True, attrs = [(''w'', Parameter 12)]\<rparr>]"

lemma well_formed_heap_shared: "well_formed heap_shared (ModuleRef 0) 3"
proof -
  have leaf: "well_formed heap_shared (Parameter q) N" for q N
    by (rule well_formed_leaf; simp)
  have e1: "entries heap_shared (ModuleRef 1) = Some [Parameter 12]"
    and e0: "entries heap_shared (ModuleRef 0) =
      Some [Parameter 10, PyDict [(''x'', Parameter 11), (''y'', Parameter 10)],
            PySeq [ModuleRef 1]]"
    by (simp_all add: heap_shared_def)
  have ed: "entries heap_shared (PyDict [(''x'', Parameter 11), (''y'', Parameter 10)]) =
      Some [Parameter 11, Parameter 10]"
    and el: "entries heap_shared (PySeq [ModuleRef 1]) = Some [ModuleRef 1]"
    by simp_all
  have 1: "well_formed heap_shared (ModuleRef 1) (Suc 0)"
    using leaf by (intro well_formed_node[OF e1]) auto
  have l: "well_formed heap_shared (PySeq [ModuleRef 1]) (Suc (Suc 0))"
    using 1 by (intro well_formed_node[OF el]) auto
  have "well_formed heap_shared (PyDict [(''x'', Parameter 11), (''y'', Parameter 10)]) (Suc 0)"
    using leaf by (intro well_formed_node[OF ed]) auto
  then have d: "well_formed heap_shared (PyDict [(''x'', Parameter 11), (''y'', Parameter 10)])
      (Suc (Suc 0))"
    unfolding well_formed_def by auto
  have "well_formed heap_shared (ModuleRef 0) (Suc (Suc (Suc 0)))"
    using leaf d l by (intro well_formed_node[OF e0]) auto
  then show ?thesis by (simp add: numeral_3_eq_3)
qed

text \<open>
  C4. On a module tree of depth at most \<open>N\<close>, \<open>parameters()\<close> returns (a recursion depth
  of \<open>2 * N + 2\<close> suffices), and the list it returns holds the parameter at every path
  that ends in a \<open>Parameter\<close>, one entry per path, in the lexicographic order of the
  paths: attributes in declaration order, dict items in insertion order, list and tuple
  elements in order, nested modules in place. Nothing is de-duplicated: the length of
  the list is the number of such paths, and each parameter occurs as often as there are
  paths that end in it.
\<close>

theorem parameters_flatten:
  assumes "well_formed h (ModuleRef a) N" "2 * N + 2 \<le> n"
  shows "\<exists>qs ps. Module_parameters n h a = Some qs \<and>
           lists_params h (ModuleRef a) ps qs \<and>
           length qs = card (param_paths h (ModuleRef a)) \<and>
           (\<forall>q. count_list qs q = card {p. lookup h (ModuleRef a) p = Some (Parameter q)})"
proof -
  from Module_parameters_returns[OF assms] obtain qs
    where qs: "Module_parameters n h a = Some qs" "unpack_params n h (ModuleRef a) = Some qs"
    by blast
  from unpack_params_lists[OF qs(2)] obtain ps where ps: "lists_params h (ModuleRef a) ps qs"
    by blast
  from qs(1) ps lists_params_length[OF ps] lists_params_count[OF ps] show ?thesis
    by blast
qed

theorem parameters_flatten_witness:
  "well_formed heap_shared (ModuleRef 0) 3 \<and> 2 * 3 + 2 \<le> (8::nat) \<and>
   Module_parameters 8 heap_shared 0 = Some [10, 11, 10, 12] \<and>
   (\<exists>ps. lists_params heap_shared (ModuleRef 0) ps [10, 11, 10, 12]) \<and>
   length [10, 11, 10, 12 :: addr] = card (param_paths heap_shared (ModuleRef 0)) \<and>
   count_list [10, 11, 10, 12] (10::addr) =
     card {p. lookup heap_shared (ModuleRef 0) p = Some (Parameter 10)}"
proof -
  have n: "2 * 3 + 2 \<le> (8::nat)" by simp
  have v: "Module_parameters 8 heap_shared 0 = Some [10, 11, 10, 12]"
    by (simp add: Module_parameters_def heap_shared_def eval_nat_numeral)
  from parameters_flatten[OF well_formed_heap_shared n] v
  obtain ps where "lists_params heap_shared (ModuleRef 0) ps [10, 11, 10, 12]"
    "length [10, 11, 10, 12 :: addr] = card (param_paths heap_shared (ModuleRef 0))"
    "\<forall>q. count_list [10, 11, 10, 12] q =
       card {p. lookup heap_shared (ModuleRef 0) p = Some (Parameter q)}"
    by auto
  with well_formed_heap_shared n v show ?thesis by blast
qed

section \<open>Layers\<close>

subsection \<open>Outcomes of a forward pass\<close>

text \<open>
  A constructor or a forward pass returns, or it stops: at an \<open>assert\<close> of the layer
  (\<open>AssertionError\<close>), at another exception that Python or the layer raises
  (\<open>IndexError\<close>, \<open>ZeroDivisionError\<close>, \<open>NotImplementedError\<close>), or in the tensor engine
  when the shapes of the operands do not fit (\<open>ShapeError\<close>). Tensor elements are modelled as real numbers, without the rounding of
  the engine's floating-point arithmetic. Where the engine would produce a NaN or an
  infinity (a division by zero, the square root of a negative number) the real numbers
  have no value to offer, and the model stops with \<open>NotFinite\<close>, which is no exception of
  the source.
\<close>

datatype error =
    AssertionError | IndexError | ZeroDivisionError | NotImplementedError
  | ShapeError | NotFinite

definition bind_err :: "error + 'a \<Rightarrow> ('a \<Rightarrow> error + 'b) \<Rightarrow> error + 'b" where
  "bind_err m f = (case m of Inl e \<Rightarrow> Inl e | Inr x \<Rightarrow> f x)"

subsection \<open>\<open>Conv\<close>: the shape of the output\<close>

text \<open>
  The fields \<open>Conv.__init__\<close> stores (a tuple given as kernel size or stride has been
  unwrapped to its first component there), and whether a bias was created.
\<close>

record Conv =
  in_channels :: nat
  out_channels :: nat
  kernel_size :: nat
  stride :: nat
  has_bias :: bool

text \<open>
  Modelled from the spec: the shapes that the engine's \<open>transpose\<close> of two axes and its
  2D convolution primitive \<open>ops.conv\<close> return (the engine is not among the sources). The
  convolution takes a channel-last input \<open>(N, H, W, C_in)\<close>, a kernel
  \<open>(K, K, C_in, C_out)\<close>, a stride and a padding of \<open>p\<close> zeros on each side of both
  spatial axes, and slides the kernel over the padded input: along an axis of size \<open>h\<close>
  there are \<open>(h + 2 * p - K) div stride + 1\<close> positions.
\<close>

definition transpose_shape :: "nat \<Rightarrow> nat \<Rightarrow> nat list \<Rightarrow> error + nat list" where
  "transpose_shape i j s =
     (if i < length s \<and> j < length s then Inr (s[i := s ! j, j := s ! i]) else Inl ShapeError)"

definition conv_shape :: "nat list \<Rightarrow> nat list \<Rightarrow> nat \<Rightarrow> nat \<Rightarrow> error + nat list" where
  "conv_shape a b st p =
     (case (a, b) of
        ([n, h, w, c_in], [kh, kw, c_in', c_out]) \<Rightarrow>
          if c_in \<noteq> c_in' \<or> st = 0 \<or> h + 2 * p < kh \<or> w + 2 * p < kw then Inl ShapeError
          else Inr [n, (h + 2 * p - kh) div st + 1, (w + 2 * p - kw) div st + 1, c_out]
      | _ \<Rightarrow> Inl ShapeError)"

text \<open>The kernel \<open>self.weight\<close> has the shape given to the initializer in \<open>__init__\<close>.\<close>

definition Conv_weight_shape :: "Conv \<Rightarrow> nat list" where
  "Conv_weight_shape self =
     [kernel_size self, kernel_size self, in_channels self, out_channels self]"

text \<open>\<open>padding = self.kernel_size // 2\<close>.\<close>

definition Conv_padding :: "Conv \<Rightarrow> nat" where
  "Conv_padding self = kernel_size self div 2"

text \<open>
  \<open>Conv.forward\<close>, on shapes: the assertion on the last two axes (\<open>X.shape[-2]\<close> raises
  \<open>IndexError\<close> when the input has fewer than two axes), the two transpositions
  to channel-last, the convolution, the bias (reshaped to \<open>(1, 1, 1, out_channels)\<close> and
  broadcast to the shape of the result, which leaves that shape as it is), and the two
  transpositions back.
\<close>

definition Conv_forward_shape :: "Conv \<Rightarrow> nat list \<Rightarrow> error + nat list" where
  "Conv_forward_shape self s =
     (if length s < 2 then Inl IndexError
      else if s ! (length s - 2) \<noteq> s ! (length s - 1) then Inl AssertionError
      else
        bind_err (transpose_shape 1 2 s) (\<lambda>s1.
        bind_err (transpose_shape 2 3 s1) (\<lambda>s2.
        bind_err (conv_shape s2 (Conv_weight_shape self) (stride self) (Conv_padding self)) (\<lambda>c.
        bind_err (if has_bias self \<and> (length c \<noteq> 4 \<or> c ! 3 \<noteq> out_channels self)
                  then Inl ShapeError else Inr c) (\<lambda>c'.
        bind_err (transpose_shape 2 3 c') (\<lambda>c1.
        transpose_shape 1 2 c1))))))"

lemma ceil_div:
  assumes s: "0 < s" and n: "0 < n"
  shows "nat \<lceil>real n / real s\<rceil> = (n - 1) div s + 1"
proof -
  define q where "q = (n - 1) div s"
  have "q * s \<le> n - 1" unfolding q_def by simp
  with n have 1: "q * s < n" by simp
  have "n - 1 < q * s + s" unfolding q_def
    using s dividend_less_div_times[of s "n - 1"] by (simp add: add.commute)
  then have 2: "n \<le> (q + 1) * s" by simp
  from 1 have "real q * real s < real n"
    by (metis of_nat_less_iff of_nat_mult)
  then have lo: "of_int (int q) < real n / real s"
    using s by (simp add: pos_less_divide_eq)
  from 2 have "real n \<le> (real q + 1) * real s"
    by (metis of_nat_le_iff of_nat_mult of_nat_add of_nat_1)
  then have hi: "real n / real s \<le> of_int (int q) + 1"
    using s by (simp add: pos_divide_le_eq)
  from lo hi have "\<lceil>real n / real s\<rceil> = int q + 1" by (rule ceiling_eq)
  then show ?thesis unfolding q_def by simp
qed

lemma Conv_forward_shape_odd:
  assumes "kernel_size self = 2 * k + 1" "0 < stride self" "0 < h" "in_channels self = c"
  shows "Conv_forward_shape self [n, c, h, h] =
           Inr [n, out_channels self, (h - 1) div stride self + 1, (h - 1) div stride self + 1]"
proof -
  have p: "Conv_padding self = k" using assms(1) by (simp add: Conv_padding_def)
  have "h + 2 * k - (2 * k + 1) = h - 1" using assms(3) by simp
  then show ?thesis
    using assms p
    by (simp add: Conv_forward_shape_def transpose_shape_def conv_shape_def bind_err_def
        Conv_weight_shape_def)
qed

text \<open>
  C9. A \<open>Conv\<close> layer pads by \<open>kernel_size // 2\<close>. For every odd kernel size (3, 5, 7
  among them), every stride of at least 1 (1, 2, 4 among them) and every input
  \<open>(N, C, H, H)\<close> with \<open>C\<close> the layer's input channels and \<open>H\<close> at least 1, the output is
  \<open>(N, out_channels, ceil(H / stride), ceil(H / stride))\<close>; with stride 1 the height and
  the width are those of the input.
\<close>

theorem Conv_same_padding:
  assumes "odd (kernel_size self)" "0 < stride self" "0 < h" "in_channels self = c"
  shows "Conv_padding self = kernel_size self div 2 \<and>
         Conv_forward_shape self [n, c, h, h] =
           Inr [n, out_channels self, nat \<lceil>real h / real (stride self)\<rceil>,
                nat \<lceil>real h / real (stride self)\<rceil>] \<and>
         (stride self = 1 \<longrightarrow>
            Conv_forward_shape self [n, c, h, h] = Inr [n, out_channels self, h, h])"
proof -
  obtain k where k: "kernel_size self = 2 * k + 1"
    using assms(1) by (auto elim: oddE)
  have 1: "Conv_forward_shape self [n, c, h, h] =
           Inr [n, out_channels self, nat \<lceil>real h / real (stride self)\<rceil>,
                nat \<lceil>real h / real (stride self)\<rceil>]"
    using Conv_forward_shape_odd[OF k assms(2,3,4)] ceil_div[OF assms(2,3)] by simp
  moreover have "nat \<lceil>real h / real (stride self)\<rceil> = h" if "stride self = 1"
    using that by simp
  ultimately show ?thesis by (simp add: Conv_padding_def)
qed

theorem Conv_same_padding_witness:
  "(let self = \<lparr>in_channels = 3, out_channels = 16, kernel_size = 5, stride = 2, has_bias = True\<rparr>
    in odd (kernel_size self) \<and> 0 < stride self \<and> (0::nat) < 7 \<and> in_channels self = 3 \<and>
       Conv_padding self = 2 \<and>
       Conv_forward_shape self [8, 3, 7, 7] = Inr [8, 16, 4, 4]) \<and>
   (let self = \<lparr>in_channels = 3, out_channels = 16, kernel_size = 3, stride = 1, has_bias = False\<rparr>
    in odd (kernel_size self) \<and> 0 < stride self \<and> (0::nat) < 7 \<and> in_channels self = 3 \<and>
       Conv_padding self = 1 \<and>
       Conv_forward_shape self [8, 3, 7, 7] = Inr [8, 16, 7, 7])"
proof -
  let ?a = "\<lparr>in_channels = 3, out_channels = 16, kernel_size = 5, stride = 2, has_bias = True\<rparr>"
  let ?b = "\<lparr>in_channels = 3, out_channels = 16, kernel_size = 3, stride = 1, has_bias = False\<rparr>"
  have c: "nat \<lceil>7 / 2 :: real\<rceil> = 4" by linarith
  have "Conv_forward_shape ?a [8, 3, 7, 7] = Inr [8, 16, 4, 4]"
    using Conv_same_padding[of ?a 7 3 8] c by simp
  moreover have "Conv_forward_shape ?b [8, 3, 7, 7] = Inr [8, 16, 7, 7]"
    using Conv_same_padding[of ?b 7 3 8] by simp
  ultimately show ?thesis by (simp add: Conv_padding_def Let_def)
qed

subsection \<open>Tensors\<close>

text \<open>
  Modelled from the spec: the tensors of the engine (\<open>needle.autograd\<close>, \<open>needle.ops\<close>
  and \<open>needle.init\<close> are not among the sources). A tensor is a value with an array of
  numbers and a flag that says whether gradients are tracked through it. An array of
  rank 1 is a list of numbers, an array of rank 2 the list of its rows, and so on; the
  arrays of a layer are rectangular, which \<open>is_matrix\<close> says for rank 2. An array with an
  axis of size 0 is not represented faithfully (the sizes of the later axes are lost),
  so the layers below stop with \<open>ShapeError\<close> on an empty batch.

  The result of an operation tracks gradients when one of its operands does; the
  accessor \<open>data\<close> returns the same array detached from gradient tracking.
\<close>

type_synonym vec = "real list"
type_synonym mat = "real list list"

record 'a tensor =
  cached_data :: 'a
  requires_grad :: bool

definition op1 :: "('a \<Rightarrow> 'b) \<Rightarrow> 'a tensor \<Rightarrow> 'b tensor" where
  "op1 f a = \<lparr>cached_data = f (cached_data a), requires_grad = requires_grad a\<rparr>"

definition op2 :: "('a \<Rightarrow> 'b \<Rightarrow> 'c) \<Rightarrow> 'a tensor \<Rightarrow> 'b tensor \<Rightarrow> 'c tensor" where
  "op2 f a b = \<lparr>cached_data = f (cached_data a) (cached_data b),
                requires_grad = (requires_grad a \<or> requires_grad b)\<rparr>"

definition data :: "'a tensor \<Rightarrow> 'a tensor" where
  "data a = \<lparr>cached_data = cached_data a, requires_grad = False\<rparr>"

text \<open>
  Modelled from the spec: the array operations of the engine that the layers use on
  rank 2. \<open>X.shape\<close> is \<open>(nrows X, ncols X)\<close>; \<open>sum_axis0\<close> is \<open>X.sum((0,))\<close>;
  \<open>row_broadcast n v\<close> is \<open>v.reshape((1, C)).broadcast_to((n, C))\<close> for \<open>v\<close> of shape
  \<open>(C,)\<close>; \<open>ewise\<close> and \<open>ewise2\<close> apply a function to every element, or to the elements
  at the same position of two arrays of one shape.
\<close>

definition nrows :: "'a list list \<Rightarrow> nat" where
  "nrows X = length X"

definition ncols :: "'a list list \<Rightarrow> nat" where
  "ncols X = (case X of [] \<Rightarrow> 0 | r # _ \<Rightarrow> length r)"

definition sum_axis0 :: "mat \<Rightarrow> vec" where
  "sum_axis0 X = map (\<lambda>j. sum_list (map (\<lambda>r. r ! j) X)) [0..<ncols X]"

definition row_broadcast :: "nat \<Rightarrow> 'a list \<Rightarrow> 'a list list" where
  "row_broadcast n v = replicate n v"

definition ewise :: "(real \<Rightarrow> real) \<Rightarrow> mat \<Rightarrow> mat" where
  "ewise f A = map (map f) A"

definition ewise2 :: "(real \<Rightarrow> real \<Rightarrow> real) \<Rightarrow> mat \<Rightarrow> mat \<Rightarrow> mat" where
  "ewise2 f A B = map2 (map2 f) A B"

definition is_matrix :: "nat \<Rightarrow> nat \<Rightarrow> 'a list list \<Rightarrow> bool" where
  "is_matrix B C X \<longleftrightarrow> length X = B \<and> list_all (\<lambda>r. length r = C) X"

lemma ncols_matrix: "is_matrix B C X \<Longrightarrow> 0 < B \<Longrightarrow> ncols X = C"
  by (cases X) (auto simp: is_matrix_def ncols_def)

lemma matrix_nth: "is_matrix B C X \<Longrightarrow> i < B \<Longrightarrow> length (X ! i) = C"
  by (auto simp: is_matrix_def list_all_length)

lemma sum_axis0_matrix:
  assumes "is_matrix B C X" "0 < B"
  shows "sum_axis0 X = map (\<lambda>j. \<Sum>i<B. X ! i ! j) [0..<C]"
proof -
  have "sum_list (map (\<lambda>r. r ! j) X) = (\<Sum>i<B. X ! i ! j)" for j
    using assms(1) by (simp add: sum_list_sum_nth is_matrix_def atLeast0LessThan)
  then show ?thesis by (simp add: sum_axis0_def ncols_matrix[OF assms])
qed

lemma ewise2_matrix:
  assumes "is_matrix B C X" "is_matrix B C Y"
  shows "ewise2 f X Y = map (\<lambda>i. map (\<lambda>j. f (X ! i ! j) (Y ! i ! j)) [0..<C]) [0..<B]"
  using assms
  by (auto simp: ewise2_def is_matrix_def list_all_length intro!: nth_equalityI)

lemma ewise_matrix:
  assumes "is_matrix B C X"
  shows "ewise f X = map (\<lambda>i. map (\<lambda>j. f (X ! i ! j)) [0..<C]) [0..<B]"
  using assms
  by (auto simp: ewise_def is_matrix_def list_all_length intro!: nth_equalityI)

lemma is_matrix_map:
  "is_matrix B C (map (\<lambda>i. map (f i) [0..<C]) [0..<B])"
  by (simp add: is_matrix_def list_all_length)

lemma is_matrix_row_broadcast: "length v = C \<Longrightarrow> is_matrix B C (row_broadcast B v)"
  by (simp add: is_matrix_def row_broadcast_def list_all_length)

lemma row_broadcast_nth: "i < B \<Longrightarrow> row_broadcast B v ! i = v"
  by (simp add: row_broadcast_def)

lemma centered_data:
  assumes "is_matrix B C X" "length v = C"
  shows "ewise2 (-) X (row_broadcast B v) =
         map (\<lambda>i. map (\<lambda>j. X ! i ! j - v ! j) [0..<C]) [0..<B]"
  using assms
  by (simp add: ewise2_matrix[OF assms(1) is_matrix_row_broadcast] row_broadcast_nth)

subsection \<open>\<open>BatchNorm1d\<close>\<close>

text \<open>
  The attributes of a \<open>BatchNorm1d\<close>. \<open>__init__\<close> creates \<open>weight\<close> and \<open>bias\<close> as
  parameters and the running statistics as tensors that do not track gradients, all of
  shape \<open>(dim,)\<close>.
\<close>

record BatchNorm1d =
  training :: bool
  dim :: nat
  eps :: real
  momentum :: real
  weight :: "vec tensor"
  bias :: "vec tensor"
  running_mean :: "vec tensor"
  running_var :: "vec tensor"

definition BatchNorm1d_inv :: "BatchNorm1d \<Rightarrow> bool" where
  "BatchNorm1d_inv self \<longleftrightarrow>
     length (cached_data (weight self)) = dim self \<and>
     length (cached_data (bias self)) = dim self \<and>
     length (cached_data (running_mean self)) = dim self \<and>
     length (cached_data (running_var self)) = dim self"

text \<open>
  \<open>BatchNorm1d.forward\<close>. The assignments to \<open>self.running_mean\<close> and \<open>self.running_var\<close>
  make the layer part of the result. \<open>** 2\<close> is the square and \<open>** 0.5\<close> the square root;
  the engine has no finite value for \<open>(var + eps) ** 0.5\<close> or for the quotient when an
  element of \<open>var + eps\<close> is negative or zero.
\<close>

definition BatchNorm1d_forward ::
    "BatchNorm1d \<Rightarrow> mat tensor \<Rightarrow> error + (mat tensor \<times> BatchNorm1d)" where
  "BatchNorm1d_forward self X =
     (let B = nrows (cached_data X); C = ncols (cached_data X) in
      if B = 0 then Inl ShapeError
      else if dim self \<noteq> C then Inl AssertionError
      else
        let (self', mean, var) =
          (if training self then
             let mean = op1 (map (\<lambda>x. x / real B)) (op1 sum_axis0 X);
                 self1 = self\<lparr>running_mean :=
                   op2 (map2 (+)) (op1 (map ((*) (1 - momentum self))) (running_mean self))
                                  (op1 (map ((*) (momentum self))) (data mean))\<rparr>;
                 mean = op1 (row_broadcast B) mean;
                 var = op1 (map (\<lambda>x. x / real B))
                         (op1 sum_axis0 (op1 (ewise (\<lambda>x. x ^ 2)) (op2 (ewise2 (-)) X mean)));
                 self2 = self1\<lparr>running_var :=
                   op2 (map2 (+)) (op1 (map ((*) (1 - momentum self))) (running_var self1))
                                  (op1 (map ((*) (momentum self))) (data var))\<rparr>;
                 var = op1 (row_broadcast B) var
             in (self2, mean, var)
           else (self, op1 (row_broadcast B) (running_mean self),
                       op1 (row_broadcast B) (running_var self)));
            var_eps = op1 (ewise (\<lambda>x. x + eps self)) var
        in
          if \<exists>r\<in>set (cached_data var_eps). \<exists>x\<in>set r. x \<le> 0 then Inl NotFinite
          else
            let normalized_X = op2 (ewise2 (/)) (op2 (ewise2 (-)) X mean) (op1 (ewise sqrt) var_eps);
                weight = op1 (row_broadcast B) (weight self);
                bias = op1 (row_broadcast B) (bias self)
            in Inr (op2 (ewise2 (+)) (op2 (ewise2 (*)) weight normalized_X) bias, self'))"

text \<open>
  Passes one after the other, each on the layer the pass before has left: what a caller
  does who applies the layer to a sequence of inputs.
\<close>

fun BatchNorm1d_forward_all ::
    "BatchNorm1d \<Rightarrow> mat tensor list \<Rightarrow> error + (mat tensor list \<times> BatchNorm1d)" where
  "BatchNorm1d_forward_all self [] = Inr ([], self)"
| "BatchNorm1d_forward_all self (X # Xs) =
     (case BatchNorm1d_forward self X of
        Inl e \<Rightarrow> Inl e
      | Inr (Y, self1) \<Rightarrow>
          (case BatchNorm1d_forward_all self1 Xs of
             Inl e \<Rightarrow> Inl e
           | Inr (Ys, self2) \<Rightarrow> Inr (Y # Ys, self2)))"

text \<open>
  The per-channel mean of a batch and its biased variance: the sum over the batch is
  divided by the batch size.
\<close>

definition batch_mean :: "mat \<Rightarrow> nat \<Rightarrow> real" where
  "batch_mean X j = (\<Sum>i<length X. X ! i ! j) / real (length X)"

definition batch_var :: "mat \<Rightarrow> nat \<Rightarrow> real" where
  "batch_var X j = (\<Sum>i<length X. (X ! i ! j - batch_mean X j) ^ 2) / real (length X)"

lemma batch_mean_data:
  assumes "is_matrix B C X" "0 < B"
  shows "map (\<lambda>x. x / real B) (sum_axis0 X) = map (batch_mean X) [0..<C]"
  unfolding sum_axis0_matrix[OF assms]
  using assms by (simp add: batch_mean_def is_matrix_def)

lemma batch_var_data:
  assumes "is_matrix B C X" "0 < B"
  shows "map (\<lambda>x. x / real B)
           (sum_axis0 (ewise (\<lambda>x. x ^ 2) (ewise2 (-) X (row_broadcast B (map (batch_mean X) [0..<C])))))
         = map (batch_var X) [0..<C]"
proof -
  let ?D = "map (\<lambda>i. map (\<lambda>j. (X ! i ! j - batch_mean X j) ^ 2) [0..<C]) [0..<B]"
  have "ewise (\<lambda>x. x ^ 2) (ewise2 (-) X (row_broadcast B (map (batch_mean X) [0..<C]))) = ?D"
    by (simp add: centered_data[OF assms(1)] ewise_def)
  moreover have "is_matrix B C ?D" by (rule is_matrix_map)
  ultimately show ?thesis
    using assms sum_axis0_matrix[of B C ?D] by (simp add: batch_var_def is_matrix_def)
qed

lemma smooth_data:
  assumes "length r = C"
  shows "map2 (+) (map ((*) (1 - m)) r) (map ((*) m) (map f [0..<C])) =
         map (\<lambda>j. (1 - m) * r ! j + m * f j) [0..<C]"
  using assms by (auto intro!: nth_equalityI)

lemma batch_var_nonneg: "0 \<le> batch_var X j"
  by (simp add: batch_var_def sum_nonneg)

lemma normalize_data:
  assumes "is_matrix B C X" "length mu = C" "length va = C" "length w = C" "length b = C"
  shows "ewise2 (+)
           (ewise2 (*) (row_broadcast B w)
              (ewise2 (/) (ewise2 (-) X (row_broadcast B mu))
                 (ewise sqrt (ewise (\<lambda>x. x + e) (row_broadcast B va)))))
           (row_broadcast B b) =
         map (\<lambda>i. map (\<lambda>j. w ! j * ((X ! i ! j - mu ! j) / sqrt (va ! j + e)) + b ! j) [0..<C])
           [0..<B]"
proof -
  have 1: "ewise sqrt (ewise (\<lambda>x. x + e) (row_broadcast B va)) =
      map (\<lambda>i. map (\<lambda>j. sqrt (va ! j + e)) [0..<C]) [0..<B]"
    using assms(3)
    by (auto simp: ewise_def row_broadcast_def intro!: nth_equalityI)
  have 2: "ewise2 (/) (ewise2 (-) X (row_broadcast B mu))
                 (ewise sqrt (ewise (\<lambda>x. x + e) (row_broadcast B va))) =
      map (\<lambda>i. map (\<lambda>j. (X ! i ! j - mu ! j) / sqrt (va ! j + e)) [0..<C]) [0..<B]"
    unfolding 1 centered_data[OF assms(1,2)]
    by (simp add: ewise2_matrix[OF is_matrix_map is_matrix_map])
  show ?thesis
    unfolding 2
    using assms(4,5)
    by (simp add: ewise2_matrix[OF is_matrix_row_broadcast is_matrix_map]
        ewise2_matrix[OF is_matrix_map is_matrix_row_broadcast] row_broadcast_nth)
qed

lemma guard_data:
  "(\<exists>r\<in>set (ewise (\<lambda>x. x + e) (row_broadcast B va)). \<exists>x\<in>set r. x \<le> 0) \<longleftrightarrow>
   0 < B \<and> (\<exists>x\<in>set va. x + e \<le> 0)"
  by (auto simp: ewise_def row_broadcast_def)

text \<open>
  C1. In training mode, on a batch \<open>X\<close> of \<open>B \<ge> 1\<close> rows and \<open>C = dim\<close> channels and with
  \<open>eps > 0\<close>, the forward pass returns; its result is \<open>X\<close> normalized with the
  per-channel mean of the batch and the biased variance of the batch (sums divided by
  \<open>B\<close>), scaled by \<open>weight\<close> and shifted by \<open>bias\<close>; each running statistic becomes
  \<open>(1 - momentum) * running + momentum * batch_stat\<close>; and it tracks gradients exactly
  when it did before, whether or not \<open>X\<close> does, since the batch statistic enters
  detached. No other attribute changes.
\<close>

theorem BatchNorm1d_training:
  assumes inv: "BatchNorm1d_inv self" and tr: "training self"
    and X: "is_matrix B C (cached_data X)" and B: "0 < B" and C: "dim self = C"
    and e: "0 < eps self"
  shows "\<exists>Y self'. BatchNorm1d_forward self X = Inr (Y, self') \<and>
     cached_data Y =
       map (\<lambda>i. map (\<lambda>j. cached_data (weight self) ! j *
                  ((cached_data X ! i ! j - batch_mean (cached_data X) j) /
                     sqrt (batch_var (cached_data X) j + eps self)) +
                  cached_data (bias self) ! j) [0..<C]) [0..<B] \<and>
     running_mean self' =
       \<lparr>cached_data = map (\<lambda>j. (1 - momentum self) * cached_data (running_mean self) ! j +
                                 momentum self * batch_mean (cached_data X) j) [0..<C],
        requires_grad = requires_grad (running_mean self)\<rparr> \<and>
     running_var self' =
       \<lparr>cached_data = map (\<lambda>j. (1 - momentum self) * cached_data (running_var self) ! j +
                                 momentum self * batch_var (cached_data X) j) [0..<C],
        requires_grad = requires_grad (running_var self)\<rparr> \<and>
     self' = self\<lparr>running_mean := running_mean self', running_var := running_var self'\<rparr>"
proof -
  let ?X = "cached_data X"
  have len: "length (cached_data (weight self)) = C" "length (cached_data (bias self)) = C"
    "length (cached_data (running_mean self)) = C" "length (cached_data (running_var self)) = C"
    using inv C by (simp_all add: BatchNorm1d_inv_def)
  have nr: "nrows ?X = B" and nc: "ncols ?X = C"
    using X B by (simp_all add: nrows_def is_matrix_def ncols_matrix[OF X B])
  have guard: "\<not> (\<exists>r\<in>set (ewise (\<lambda>x. x + eps self)
      (row_broadcast B (map (batch_var ?X) [0..<C]))). \<exists>x\<in>set r. x \<le> 0)"
    unfolding guard_data using e batch_var_nonneg[of ?X]
    by (auto simp: add_nonneg_pos not_le)
  note norm = normalize_data[OF X, of "map (batch_mean ?X) [0..<C]" "map (batch_var ?X) [0..<C]"
      "cached_data (weight self)" "cached_data (bias self)" "eps self", simplified len, simplified]
  show ?thesis
    using tr B C guard
    by (simp add: BatchNorm1d_forward_def Let_def nr nc op1_def op2_def data_def
        batch_mean_data[OF X B] batch_var_data[OF X B] smooth_data len norm del: map_map)
qed

definition bn_example :: BatchNorm1d where
  "bn_example = \<lparr>training = True, dim = 2, eps = 3, momentum = 1 / 2,
     weight = \<lparr>cached_data = [2, 1], requires_grad = True\<rparr>,
     bias = \<lparr>cached_data = [0, 1], requires_grad = True\<rparr>,
     running_mean = \<lparr>cached_data = [4, 0], requires_grad = False\<rparr>,
     running_var = \<lparr>cached_data = [1, 3], requires_grad = False\<rparr>\<rparr>"

definition X_example :: "mat tensor" where
  "X_example = \<lparr>cached_data = [[1, 0], [3, 2]], requires_grad = True\<rparr>"

lemma batch_stats_example:
  "batch_mean [[1, 0], [3, 2]] 0 = 2" "batch_mean [[1, 0], [3, 2]] (Suc 0) = 1"
  "batch_var [[1, 0], [3, 2]] 0 = 1" "batch_var [[1, 0], [3, 2]] (Suc 0) = 1"
  by (simp_all add: batch_var_def batch_mean_def lessThan_Suc numeral_2_eq_2)

theorem BatchNorm1d_training_witness:
  "BatchNorm1d_inv bn_example \<and> training bn_example \<and>
   is_matrix 2 2 (cached_data X_example) \<and> (0::nat) < 2 \<and> dim bn_example = 2 \<and>
   0 < eps bn_example \<and>
   (\<exists>Y. BatchNorm1d_forward bn_example X_example =
           Inr (Y, bn_example\<lparr>running_mean := \<lparr>cached_data = [3, 1 / 2], requires_grad = False\<rparr>,
                             running_var := \<lparr>cached_data = [1, 2], requires_grad = False\<rparr>\<rparr>) \<and>
        cached_data Y = [[- 1, 1 / 2], [1, 3 / 2]])"
proof -
  have h: "BatchNorm1d_inv bn_example" "training bn_example"
    "is_matrix 2 2 (cached_data X_example)" "(0::nat) < 2" "dim bn_example = 2"
    "0 < eps bn_example"
    by (simp_all add: BatchNorm1d_inv_def bn_example_def X_example_def is_matrix_def)
  have up: "[0..<2] = [0, Suc 0]" by (simp add: numeral_2_eq_2)
  from BatchNorm1d_training[OF h] obtain Y self' where
    r: "BatchNorm1d_forward bn_example X_example = Inr (Y, self')"
    and Y: "cached_data Y =
       map (\<lambda>i. map (\<lambda>j. cached_data (weight bn_example) ! j *
                  ((cached_data X_example ! i ! j - batch_mean (cached_data X_example) j) /
                     sqrt (batch_var (cached_data X_example) j + eps bn_example)) +
                  cached_data (bias bn_example) ! j) [0..<2]) [0..<2]"
    and m: "running_mean self' =
       \<lparr>cached_data = map (\<lambda>j. (1 - momentum bn_example) * cached_data (running_mean bn_example) ! j +
                                 momentum bn_example * batch_mean (cached_data X_example) j) [0..<2],
        requires_grad = requires_grad (running_mean bn_example)\<rparr>"
    and v: "running_var self' =
       \<lparr>cached_data = map (\<lambda>j. (1 - momentum bn_example) * cached_data (running_var bn_example) ! j +
                                 momentum bn_example * batch_var (cached_data X_example) j) [0..<2],
        requires_grad = requires_grad (running_var bn_example)\<rparr>"
    and s: "self' = bn_example\<lparr>running_mean := running_mean self', running_var := running_var self'\<rparr>"
    by blast
  have m': "running_mean self' = \<lparr>cached_data = [3, 1 / 2], requires_grad = False\<rparr>"
    unfolding m by (simp add: up bn_example_def X_example_def batch_stats_example)
  have v': "running_var self' = \<lparr>cached_data = [1, 2], requires_grad = False\<rparr>"
    unfolding v by (simp add: up bn_example_def X_example_def batch_stats_example)
  have Y': "cached_data Y = [[- 1, 1 / 2], [1, 3 / 2]]"
    unfolding Y by (simp add: up bn_example_def X_example_def batch_stats_example)
  from r s m' v' Y' have "\<exists>Y. BatchNorm1d_forward bn_example X_example =
           Inr (Y, bn_example\<lparr>running_mean := \<lparr>cached_data = [3, 1 / 2], requires_grad = False\<rparr>,
                             running_var := \<lparr>cached_data = [1, 2], requires_grad = False\<rparr>\<rparr>) \<and>
        cached_data Y = [[- 1, 1 / 2], [1, 3 / 2]]"
    by auto
  with h show ?thesis by blast
qed

lemma BatchNorm1d_eval_frame:
  "\<not> training self \<Longrightarrow> BatchNorm1d_forward self X = Inr (Y, self') \<Longrightarrow> self' = self"
  by (auto simp: BatchNorm1d_forward_def Let_def split: if_splits)

lemma BatchNorm1d_eval_frame_all:
  "\<not> training self \<Longrightarrow> BatchNorm1d_forward_all self Xs = Inr (Ys, self') \<Longrightarrow> self' = self"
proof (induction Xs arbitrary: Ys)
  case Nil
  then show ?case by simp
next
  case (Cons X Xs)
  from Cons.prems(2) obtain Y self1 Ys' where 1: "BatchNorm1d_forward self X = Inr (Y, self1)"
    and 2: "BatchNorm1d_forward_all self1 Xs = Inr (Ys', self')"
    by (auto split: sum.splits)
  from BatchNorm1d_eval_frame[OF Cons.prems(1) 1] have "self1 = self" .
  with Cons.IH[OF Cons.prems(1)] 2 show ?case by simp
qed

lemma BatchNorm1d_eval_value:
  assumes inv: "BatchNorm1d_inv self" and tr: "\<not> training self"
    and X: "is_matrix B C (cached_data X)" and B: "0 < B" and C: "dim self = C"
    and e: "list_all (\<lambda>v. 0 < v + eps self) (cached_data (running_var self))"
  shows "\<exists>Y. BatchNorm1d_forward self X = Inr (Y, self) \<and>
     cached_data Y =
       map (\<lambda>i. map (\<lambda>j. cached_data (weight self) ! j *
                  ((cached_data X ! i ! j - cached_data (running_mean self) ! j) /
                     sqrt (cached_data (running_var self) ! j + eps self)) +
                  cached_data (bias self) ! j) [0..<C]) [0..<B]"
proof -
  let ?X = "cached_data X"
  have len: "length (cached_data (weight self)) = C" "length (cached_data (bias self)) = C"
    "length (cached_data (running_mean self)) = C" "length (cached_data (running_var self)) = C"
    using inv C by (simp_all add: BatchNorm1d_inv_def)
  have nr: "nrows ?X = B" and nc: "ncols ?X = C"
    using X B by (simp_all add: nrows_def is_matrix_def ncols_matrix[OF X B])
  have guard: "\<not> (\<exists>r\<in>set (ewise (\<lambda>x. x + eps self)
      (row_broadcast B (cached_data (running_var self)))). \<exists>x\<in>set r. x \<le> 0)"
    unfolding guard_data using e by (auto simp: not_le list_all_iff)
  note norm = normalize_data[OF X len(3) len(4) len(1) len(2), of "eps self"]
  show ?thesis
    using tr B C guard
    by (simp add: BatchNorm1d_forward_def Let_def nr nc op1_def op2_def norm del: map_map)
qed

lemma BatchNorm1d_training_deterministic:
  assumes "training s1" "training s2" "momentum s1 = momentum s2"
    "running_mean s1 = running_mean s2" "running_var s1 = running_var s2"
    "cached_data X1 = cached_data X2"
    "BatchNorm1d_forward s1 X1 = Inr (Y1, s1')" "BatchNorm1d_forward s2 X2 = Inr (Y2, s2')"
  shows "running_mean s1' = running_mean s2' \<and> running_var s1' = running_var s2'"
  using assms
  by (auto simp: BatchNorm1d_forward_def Let_def op1_def op2_def data_def
      split: if_splits simp del: map_map)

text \<open>
  C2. In evaluation mode the running statistics, and every other attribute, are what
  they were after any number of forward passes, on any inputs, that return. On a batch
  of \<open>B \<ge> 1\<close> rows and \<open>C = dim\<close> channels, with every \<open>running_var + eps\<close> positive, the
  pass returns \<open>X\<close> normalized with the stored running mean and running variance. In
  training mode, two passes that start from the same momentum and the same running
  statistics, on inputs with the same numbers, leave the same running statistics,
  whatever the other attributes of the two layers are.
\<close>

theorem BatchNorm1d_modes:
  "(\<not> training self \<longrightarrow>
      (\<forall>Xs Ys self'. BatchNorm1d_forward_all self Xs = Inr (Ys, self') \<longrightarrow> self' = self)) \<and>
   (\<not> training self \<and> BatchNorm1d_inv self \<and> is_matrix B C (cached_data X) \<and> 0 < B \<and>
    dim self = C \<and> list_all (\<lambda>v. 0 < v + eps self) (cached_data (running_var self)) \<longrightarrow>
      (\<exists>Y. BatchNorm1d_forward self X = Inr (Y, self) \<and>
         cached_data Y =
           map (\<lambda>i. map (\<lambda>j. cached_data (weight self) ! j *
                      ((cached_data X ! i ! j - cached_data (running_mean self) ! j) /
                         sqrt (cached_data (running_var self) ! j + eps self)) +
                      cached_data (bias self) ! j) [0..<C]) [0..<B])) \<and>
   (training s1 \<and> training s2 \<and> momentum s1 = momentum s2 \<and>
    running_mean s1 = running_mean s2 \<and> running_var s1 = running_var s2 \<and>
    cached_data X1 = cached_data X2 \<and>
    BatchNorm1d_forward s1 X1 = Inr (Y1, s1') \<and> BatchNorm1d_forward s2 X2 = Inr (Y2, s2') \<longrightarrow>
      running_mean s1' = running_mean s2' \<and> running_var s1' = running_var s2')"
proof (intro conjI impI allI)
  fix Xs Ys self'
  assume "\<not> training self" "BatchNorm1d_forward_all self Xs = Inr (Ys, self')"
  then show "self' = self" by (rule BatchNorm1d_eval_frame_all)
next
  assume "\<not> training self \<and> BatchNorm1d_inv self \<and> is_matrix B C (cached_data X) \<and> 0 < B \<and>
    dim self = C \<and> list_all (\<lambda>v. 0 < v + eps self) (cached_data (running_var self))"
  then show "\<exists>Y. BatchNorm1d_forward self X = Inr (Y, self) \<and>
         cached_data Y =
           map (\<lambda>i. map (\<lambda>j. cached_data (weight self) ! j *
                      ((cached_data X ! i ! j - cached_data (running_mean self) ! j) /
                         sqrt (cached_data (running_var self) ! j + eps self)) +
                      cached_data (bias self) ! j) [0..<C]) [0..<B]"
    using BatchNorm1d_eval_value[of self B C X] by blast
next
  assume a: "training s1 \<and> training s2 \<and> momentum s1 = momentum s2 \<and>
    running_mean s1 = running_mean s2 \<and> running_var s1 = running_var s2 \<and>
    cached_data X1 = cached_data X2 \<and>
    BatchNorm1d_forward s1 X1 = Inr (Y1, s1') \<and> BatchNorm1d_forward s2 X2 = Inr (Y2, s2')"
  then have "running_mean s1' = running_mean s2' \<and> running_var s1' = running_var s2'"
    using BatchNorm1d_training_deterministic[of s1 s2 X1 X2 Y1 s1' Y2 s2'] by blast
  then show "running_mean s1' = running_mean s2'" "running_var s1' = running_var s2'"
    by simp_all
qed

definition bn_eval_example :: BatchNorm1d where
  "bn_eval_example = \<lparr>training = False, dim = 2, eps = 3, momentum = 1 / 2,
     weight = \<lparr>cached_data = [2, 1], requires_grad = True\<rparr>,
     bias = \<lparr>cached_data = [0, 1], requires_grad = True\<rparr>,
     running_mean = \<lparr>cached_data = [1, 0], requires_grad = False\<rparr>,
     running_var = \<lparr>cached_data = [1, 6], requires_grad = False\<rparr>\<rparr>"

definition bn_other_example :: BatchNorm1d where
  "bn_other_example =
     bn_example\<lparr>eps := 8, weight := \<lparr>cached_data = [5, 5], requires_grad = True\<rparr>\<rparr>"

lemma sqrt_9: "sqrt 9 = 3"
  by (rule real_sqrt_unique) simp_all

lemma forward_eval_example:
  "BatchNorm1d_forward bn_eval_example X_example =
     Inr (\<lparr>cached_data = [[0, 1], [2, 5 / 3]], requires_grad = True\<rparr>, bn_eval_example)"
  by (simp add: BatchNorm1d_forward_def bn_eval_example_def X_example_def Let_def nrows_def
      ncols_def op1_def op2_def ewise_def ewise2_def row_broadcast_def sqrt_9 numeral_2_eq_2)

lemma forward_train_example:
  "BatchNorm1d_forward bn_example X_example =
     Inr (\<lparr>cached_data = [[- 1, 1 / 2], [1, 3 / 2]], requires_grad = True\<rparr>,
          bn_example\<lparr>running_mean := \<lparr>cached_data = [3, 1 / 2], requires_grad = False\<rparr>,
                      running_var := \<lparr>cached_data = [1, 2], requires_grad = False\<rparr>\<rparr>)"
  by (simp add: BatchNorm1d_forward_def bn_example_def X_example_def Let_def nrows_def
      ncols_def op1_def op2_def data_def ewise_def ewise2_def row_broadcast_def sum_axis0_def
      numeral_2_eq_2)

lemma forward_other_example:
  "BatchNorm1d_forward bn_other_example (X_example\<lparr>requires_grad := False\<rparr>) =
     Inr (\<lparr>cached_data = [[- (5 / 3), - (2 / 3)], [5 / 3, 8 / 3]], requires_grad = True\<rparr>,
          bn_other_example\<lparr>running_mean := \<lparr>cached_data = [3, 1 / 2], requires_grad = False\<rparr>,
                            running_var := \<lparr>cached_data = [1, 2], requires_grad = False\<rparr>\<rparr>)"
  by (simp add: BatchNorm1d_forward_def bn_other_example_def bn_example_def X_example_def
      Let_def nrows_def ncols_def op1_def op2_def data_def ewise_def ewise2_def
      row_broadcast_def sum_axis0_def sqrt_9 numeral_2_eq_2)

theorem BatchNorm1d_modes_witness:
  "\<not> training bn_eval_example \<and>
   (\<exists>Y. BatchNorm1d_forward_all bn_eval_example [X_example, X_example] =
          Inr ([Y, Y], bn_eval_example)) \<and>
   BatchNorm1d_inv bn_eval_example \<and> is_matrix 2 2 (cached_data X_example) \<and> (0::nat) < 2 \<and>
   dim bn_eval_example = 2 \<and>
   list_all (\<lambda>v. 0 < v + eps bn_eval_example) (cached_data (running_var bn_eval_example)) \<and>
   (\<exists>Y. BatchNorm1d_forward bn_eval_example X_example = Inr (Y, bn_eval_example) \<and>
        cached_data Y = [[0, 1], [2, 5 / 3]]) \<and>
   training bn_example \<and> training bn_other_example \<and>
   momentum bn_example = momentum bn_other_example \<and>
   running_mean bn_example = running_mean bn_other_example \<and>
   running_var bn_example = running_var bn_other_example \<and>
   cached_data X_example = cached_data (X_example\<lparr>requires_grad := False\<rparr>) \<and>
   (\<exists>Y1 s1' Y2 s2'.
      BatchNorm1d_forward bn_example X_example = Inr (Y1, s1') \<and>
      BatchNorm1d_forward bn_other_example (X_example\<lparr>requires_grad := False\<rparr>) = Inr (Y2, s2') \<and>
      running_mean s1' = running_mean s2' \<and> running_var s1' = running_var s2')"
proof -
  let ?Y = "\<lparr>cached_data = [[0, 1], [2, 5 / 3]], requires_grad = True\<rparr> :: mat tensor"
  have e: "\<not> training bn_eval_example" "BatchNorm1d_inv bn_eval_example"
    "is_matrix 2 2 (cached_data X_example)" "(0::nat) < 2" "dim bn_eval_example = 2"
    "list_all (\<lambda>v. 0 < v + eps bn_eval_example) (cached_data (running_var bn_eval_example))"
    by (simp_all add: bn_eval_example_def BatchNorm1d_inv_def X_example_def is_matrix_def)
  have all: "BatchNorm1d_forward_all bn_eval_example [X_example, X_example] =
      Inr ([?Y, ?Y], bn_eval_example)"
    by (simp add: forward_eval_example)
  have t: "training bn_example" "training bn_other_example"
    "momentum bn_example = momentum bn_other_example"
    "running_mean bn_example = running_mean bn_other_example"
    "running_var bn_example = running_var bn_other_example"
    "cached_data X_example = cached_data (X_example\<lparr>requires_grad := False\<rparr>)"
    by (simp_all add: bn_example_def bn_other_example_def)
  let ?Y1 = "\<lparr>cached_data = [[- 1, 1 / 2], [1, 3 / 2]], requires_grad = True\<rparr> :: mat tensor"
  let ?Y2 = "\<lparr>cached_data = [[- (5 / 3), - (2 / 3)], [5 / 3, 8 / 3]], requires_grad = True\<rparr>
      :: mat tensor"
  let ?s1 = "bn_example\<lparr>running_mean := \<lparr>cached_data = [3, 1 / 2], requires_grad = False\<rparr>,
                      running_var := \<lparr>cached_data = [1, 2], requires_grad = False\<rparr>\<rparr>"
  let ?s2 = "bn_other_example\<lparr>running_mean := \<lparr>cached_data = [3, 1 / 2], requires_grad = False\<rparr>,
                            running_var := \<lparr>cached_data = [1, 2], requires_grad = False\<rparr>\<rparr>"
  note inst = BatchNorm1d_modes[of bn_eval_example 2 2 X_example bn_example bn_other_example
      X_example "X_example\<lparr>requires_grad := False\<rparr>" ?Y1 ?s1 ?Y2 ?s2]
  have up: "[0..<2] = [0, Suc 0]" by (simp add: numeral_2_eq_2)
  have "\<exists>Y. BatchNorm1d_forward bn_eval_example X_example = Inr (Y, bn_eval_example) \<and>
         cached_data Y =
           map (\<lambda>i. map (\<lambda>j. cached_data (weight bn_eval_example) ! j *
                      ((cached_data X_example ! i ! j - cached_data (running_mean bn_eval_example) ! j) /
                         sqrt (cached_data (running_var bn_eval_example) ! j + eps bn_eval_example)) +
                      cached_data (bias bn_eval_example) ! j) [0..<2]) [0..<2]"
    by (rule mp[OF inst[THEN conjunct2, THEN conjunct1]]) (intro conjI e)
  then obtain Y where Y: "BatchNorm1d_forward bn_eval_example X_example = Inr (Y, bn_eval_example)"
    and cd: "cached_data Y =
           map (\<lambda>i. map (\<lambda>j. cached_data (weight bn_eval_example) ! j *
                      ((cached_data X_example ! i ! j - cached_data (running_mean bn_eval_example) ! j) /
                         sqrt (cached_data (running_var bn_eval_example) ! j + eps bn_eval_example)) +
                      cached_data (bias bn_eval_example) ! j) [0..<2]) [0..<2]"
    by blast
  have "cached_data Y = [[0, 1], [2, 5 / 3]]"
    unfolding cd by (simp add: up bn_eval_example_def X_example_def sqrt_9)
  with Y have 2: "\<exists>Y. BatchNorm1d_forward bn_eval_example X_example = Inr (Y, bn_eval_example) \<and>
        cached_data Y = [[0, 1], [2, 5 / 3]]"
    by blast
  have "running_mean ?s1 = running_mean ?s2 \<and> running_var ?s1 = running_var ?s2"
    by (rule mp[OF inst[THEN conjunct2, THEN conjunct2]])
       (intro conjI t forward_train_example forward_other_example)
  with forward_train_example forward_other_example
  have 3: "\<exists>Y1 s1' Y2 s2'.
      BatchNorm1d_forward bn_example X_example = Inr (Y1, s1') \<and>
      BatchNorm1d_forward bn_other_example (X_example\<lparr>requires_grad := False\<rparr>) = Inr (Y2, s2') \<and>
      running_mean s1' = running_mean s2' \<and> running_var s1' = running_var s2'"
    by blast
  have 1: "\<exists>Y. BatchNorm1d_forward_all bn_eval_example [X_example, X_example] =
          Inr ([Y, Y], bn_eval_example)"
    using all by blast
  show ?thesis
    by (intro conjI) (fact e 1 2 3 t)+
qed

subsection \<open>\<open>SoftmaxLoss\<close>\<close>

text \<open>
  From here on the layers are embedded on the arrays of their tensors: gradient
  tracking plays no part in what the remaining claims say.

  Modelled from the spec: the one-hot encoding constructor \<open>init.one_hot\<close> (row \<open>k\<close> of
  the result has a one at the column given by the \<open>k\<close>-th label and zeros elsewhere; a
  label that is no column stops it), the numerically stable log-sum-exp reduction
  \<open>ops.logsumexp\<close> over axis 1 (the maximum of a row is subtracted before the
  exponential and added back after the logarithm), and \<open>X.sum((1,))\<close>.
\<close>

definition one_hot :: "nat \<Rightarrow> nat list \<Rightarrow> error + mat" where
  "one_hot n i =
     (if list_all (\<lambda>c. c < n) i
      then Inr (map (\<lambda>c. map (\<lambda>j. if j = c then 1 else 0) [0..<n]) i)
      else Inl IndexError)"

definition logsumexp :: "vec \<Rightarrow> real" where
  "logsumexp z = Max (set z) + ln (sum_list (map (\<lambda>x. exp (x - Max (set z))) z))"

definition sum_axis1 :: "mat \<Rightarrow> vec" where
  "sum_axis1 X = map sum_list X"

text \<open>
  \<open>SoftmaxLoss.forward\<close>. The final \<open>.sum()\<close> adds up the entries of a vector; the
  division by \<open>logits.shape[0]\<close> is not guarded. Logits without rows or without columns,
  and a label tensor whose length is not the number of rows, are outside what the
  arrays of the model represent or the engine accepts.
\<close>

definition SoftmaxLoss_forward :: "mat \<Rightarrow> nat list \<Rightarrow> error + real" where
  "SoftmaxLoss_forward logits y =
     (if nrows logits = 0 \<or> ncols logits = 0 then Inl ShapeError
      else
        bind_err (one_hot (ncols logits) y) (\<lambda>one_hot.
          if length y \<noteq> nrows logits then Inl ShapeError
          else Inr (sum_list (map2 (-) (map logsumexp logits)
                                       (sum_axis1 (ewise2 (*) logits one_hot)))
                    / real (nrows logits))))"

lemma logsumexp_eq:
  assumes "z \<noteq> []"
  shows "logsumexp z = ln (\<Sum>j<length z. exp (z ! j))"
proof -
  let ?M = "Max (set z)"
  have "sum_list (map (\<lambda>x. exp (x - ?M)) z) = (\<Sum>j<length z. exp (z ! j - ?M))"
    by (simp add: sum_list_sum_nth atLeast0LessThan)
  also have "\<dots> = exp (- ?M) * (\<Sum>j<length z. exp (z ! j))"
    by (simp add: sum_distrib_left exp_diff exp_minus divide_inverse mult.commute)
  finally have 1: "sum_list (map (\<lambda>x. exp (x - ?M)) z) = exp (- ?M) * (\<Sum>j<length z. exp (z ! j))" .
  have pos: "0 < (\<Sum>j<length z. exp (z ! j))"
    using assms by (intro sum_pos) auto
  show ?thesis
    unfolding logsumexp_def 1 using pos by (simp add: ln_mult)
qed

lemma select_one_hot:
  fixes r :: "real list"
  assumes "c < length r"
  shows "sum_list (map2 (*) r (map (\<lambda>j. if j = c then 1 else 0) [0..<length r])) = r ! c"
proof -
  have "sum_list (map2 (*) r (map (\<lambda>j. if j = c then 1 else 0) [0..<length r])) =
        (\<Sum>j<length r. r ! j * (if j = c then 1 else 0))"
    by (simp add: sum_list_sum_nth atLeast0LessThan)
  also have "\<dots> = (\<Sum>j<length r. if j = c then r ! j else 0)"
    by (intro sum.cong) auto
  also have "\<dots> = r ! c" using assms by simp
  finally show ?thesis .
qed

lemma lse_rows:
  assumes "is_matrix B C logits" "0 < C"
  shows "map logsumexp logits = map (\<lambda>i. ln (\<Sum>j<C. exp (logits ! i ! j))) [0..<B]"
proof (rule nth_equalityI)
  show "length (map logsumexp logits) =
      length (map (\<lambda>i. ln (\<Sum>j<C. exp (logits ! i ! j))) [0..<B])"
    using assms(1) by (simp add: is_matrix_def)
next
  fix i assume "i < length (map logsumexp logits)"
  then have i: "i < B" using assms(1) by (simp add: is_matrix_def)
  have len: "length (logits ! i) = C" by (rule matrix_nth[OF assms(1) i])
  then have "logits ! i \<noteq> []" using assms(2) by auto
  then have "logsumexp (logits ! i) = ln (\<Sum>j<C. exp (logits ! i ! j))"
    unfolding len[symmetric] by (rule logsumexp_eq)
  moreover have "length logits = B" using assms(1) by (simp add: is_matrix_def)
  ultimately show "map logsumexp logits ! i =
      map (\<lambda>i. ln (\<Sum>j<C. exp (logits ! i ! j))) [0..<B] ! i"
    using i by simp
qed


lemma sel_rows:
  assumes "is_matrix B C logits" "length y = B" "list_all (\<lambda>c. c < C) y"
  shows "sum_axis1 (ewise2 (*) logits (map (\<lambda>c. map (\<lambda>j. if j = c then 1 else 0) [0..<C]) y)) =
         map (\<lambda>i. logits ! i ! (y ! i)) [0..<B]"
proof (rule nth_equalityI)
  let ?H = "map (\<lambda>c. map (\<lambda>j. if j = c then 1 else 0) [0..<C]) y"
  have lenL: "length logits = B" using assms(1) by (simp add: is_matrix_def)
  show "length (sum_axis1 (ewise2 (*) logits ?H)) = length (map (\<lambda>i. logits ! i ! (y ! i)) [0..<B])"
    using lenL assms(2) by (simp add: sum_axis1_def ewise2_def)
  fix i assume "i < length (sum_axis1 (ewise2 (*) logits ?H))"
  then have i: "i < B" using lenL assms(2) by (simp add: sum_axis1_def ewise2_def)
  have len: "length (logits ! i) = C" by (rule matrix_nth[OF assms(1) i])
  have yi: "y ! i < length (logits ! i)"
    using assms(2,3) i len by (simp add: list_all_length)
  have "sum_axis1 (ewise2 (*) logits ?H) ! i =
        sum_list (map2 (*) (logits ! i) (map (\<lambda>j. if j = y ! i then 1 else 0) [0..<C]))"
    using i lenL assms(2) by (simp add: sum_axis1_def ewise2_def)
  also have "\<dots> = logits ! i ! (y ! i)"
    unfolding len[symmetric] by (rule select_one_hot[OF yi])
  finally show "sum_axis1 (ewise2 (*) logits ?H) ! i = map (\<lambda>i. logits ! i ! (y ! i)) [0..<B] ! i"
    using i by simp
qed


lemma SoftmaxLoss_value:
  assumes "is_matrix B C logits" "0 < B" "0 < C" "length y = B" "list_all (\<lambda>c. c < C) y"
  shows "SoftmaxLoss_forward logits y =
           Inr ((\<Sum>i<B. ln (\<Sum>j<C. exp (logits ! i ! j)) - logits ! i ! (y ! i)) / real B)"
proof -
  have nr: "nrows logits = B" and nc: "ncols logits = C"
    using assms(1,2) by (simp_all add: nrows_def is_matrix_def ncols_matrix[OF assms(1,2)])
  let ?H = "map (\<lambda>c. map (\<lambda>j. if j = c then 1 else 0) [0..<C]) y"
  have H: "one_hot C y = Inr ?H" using assms(5) by (simp add: one_hot_def)
  have "sum_list (map2 (-) (map logsumexp logits) (sum_axis1 (ewise2 (*) logits ?H))) =
        (\<Sum>i<B. ln (\<Sum>j<C. exp (logits ! i ! j)) - logits ! i ! (y ! i))"
    unfolding lse_rows[OF assms(1,3)] sel_rows[OF assms(1,4,5)]
    by (simp add: sum_list_sum_nth atLeast0LessThan)
  then have "Inr (sum_list (map2 (-) (map logsumexp logits)
                                       (sum_axis1 (ewise2 (*) logits ?H))) / real B) =
       (Inr ((\<Sum>i<B. ln (\<Sum>j<C. exp (logits ! i ! j)) - logits ! i ! (y ! i)) / real B)
         :: error + real)"
    by (simp only:)
  moreover have "SoftmaxLoss_forward logits y =
      Inr (sum_list (map2 (-) (map logsumexp logits)
                                       (sum_axis1 (ewise2 (*) logits ?H))) / real B)"
    unfolding SoftmaxLoss_forward_def nr nc H bind_err_def
    using assms(2,3,4) by simp
  ultimately show ?thesis by (rule trans[rotated])
qed


lemma SoftmaxLoss_uniform:
  assumes "is_matrix B C logits" "0 < B" "0 < C" "length y = B" "list_all (\<lambda>c. c < C) y"
    and u: "\<forall>i<B. \<forall>j<C. logits ! i ! j = logits ! i ! 0"
  shows "SoftmaxLoss_forward logits y = Inr (ln (real C))"
proof -
  have eq: "ln (\<Sum>j<C. exp (logits ! i ! j)) - logits ! i ! (y ! i) = ln (real C)"
    if i: "i < B" for i
  proof -
    have yi: "y ! i < C" using assms(4,5) i by (simp add: list_all_length)
    have "(\<Sum>j<C. exp (logits ! i ! j)) = (\<Sum>j<C. exp (logits ! i ! 0))"
    proof (rule sum.cong[OF refl])
      fix j assume "j \<in> {..<C}"
      then have "j < C" by simp
      with u i have "logits ! i ! j = logits ! i ! 0" by blast
      then show "exp (logits ! i ! j) = exp (logits ! i ! 0)" by (simp only:)
    qed
    also have "\<dots> = real C * exp (logits ! i ! 0)" by simp
    finally have "ln (\<Sum>j<C. exp (logits ! i ! j)) = ln (real C) + logits ! i ! 0"
      using assms(3) by (simp add: ln_mult)
    moreover have "logits ! i ! (y ! i) = logits ! i ! 0" using u i yi by blast
    ultimately show ?thesis by simp
  qed
  have "(\<Sum>i<B. ln (\<Sum>j<C. exp (logits ! i ! j)) - logits ! i ! (y ! i)) =
        (\<Sum>i<B. ln (real C))"
  proof (rule sum.cong[OF refl])
    fix i assume "i \<in> {..<B}"
    then have "i < B" by simp
    then show "ln (\<Sum>j<C. exp (logits ! i ! j)) - logits ! i ! (y ! i) = ln (real C)"
      by (rule eq)
  qed
  also have "\<dots> = real B * ln (real C)" by simp
  finally have "(\<Sum>i<B. ln (\<Sum>j<C. exp (logits ! i ! j)) - logits ! i ! (y ! i)) / real B =
      ln (real C)"
    using assms(2) by simp
  with SoftmaxLoss_value[OF assms(1-5)] show ?thesis by (simp only:)
qed

text \<open>
  C8. For logits of \<open>B \<ge> 1\<close> rows and \<open>C \<ge> 1\<close> columns and one label below \<open>C\<close> per row,
  the loss is the sum over the rows of the logarithm of the sum of the exponentials of
  the row, minus the logit at the row's label, divided by \<open>B\<close>. When every row is
  constant, the loss is \<open>log(C)\<close>.
\<close>

theorem SoftmaxLoss_mean:
  assumes "is_matrix B C logits" "0 < B" "0 < C" "length y = B" "list_all (\<lambda>c. c < C) y"
  shows "SoftmaxLoss_forward logits y =
           Inr ((\<Sum>i<B. ln (\<Sum>j<C. exp (logits ! i ! j)) - logits ! i ! (y ! i)) / real B) \<and>
         ((\<forall>i<B. \<forall>j<C. logits ! i ! j = logits ! i ! 0) \<longrightarrow>
            SoftmaxLoss_forward logits y = Inr (ln (real C)))"
  using SoftmaxLoss_value[OF assms] SoftmaxLoss_uniform[OF assms] by blast

theorem SoftmaxLoss_mean_witness:
  "is_matrix 2 3 [[0, 0, 0], [1, 1, 1 :: real]] \<and> (0::nat) < 2 \<and> (0::nat) < 3 \<and>
   length [2, 0 :: nat] = 2 \<and> list_all (\<lambda>c. c < 3) [2, 0 :: nat] \<and>
   SoftmaxLoss_forward [[0, 0, 0], [1, 1, 1]] [2, 0] = Inr (ln 3)"
proof -
  have h: "is_matrix 2 3 [[0, 0, 0], [1, 1, 1 :: real]]" "(0::nat) < 2" "(0::nat) < 3"
    "length [2, 0 :: nat] = 2" "list_all (\<lambda>c. c < 3) [2, 0 :: nat]"
    by (simp_all add: is_matrix_def)
  have u: "\<forall>i<2. \<forall>j<3. [[0, 0, 0], [1, 1, 1 :: real]] ! i ! j = [[0, 0, 0], [1, 1, 1]] ! i ! 0"
    by (simp add: less_Suc_eq numeral_2_eq_2 numeral_3_eq_3)
  from SoftmaxLoss_mean[OF h] u
  have "SoftmaxLoss_forward [[0, 0, 0], [1, 1, 1]] [2, 0] = Inr (ln (real 3))"
    by blast
  with h show ?thesis by simp
qed

subsection \<open>\<open>LSTMCell\<close>\<close>

text \<open>
  Modelled from the spec: the matrix product of the engine (\<open>@\<close>), which needs the rows
  of the left operand to be as long as the right operand has rows; \<open>init.zeros\<close>; and the
  elementwise operations on two arrays, which need operands of one shape.
\<close>

definition matmul :: "mat \<Rightarrow> mat \<Rightarrow> error + mat" where
  "matmul A B =
     (if A = [] \<or> B = [] \<or> \<not> list_all (\<lambda>r. length r = nrows B) A then Inl ShapeError
      else Inr (map (\<lambda>r. map (\<lambda>k. sum_list (map2 (*) r (map (\<lambda>b. b ! k) B))) [0..<ncols B]) A))"

definition zeros :: "nat \<Rightarrow> nat \<Rightarrow> mat" where
  "zeros n m = replicate n (replicate m 0)"

definition same_shape :: "mat \<Rightarrow> mat \<Rightarrow> bool" where
  "same_shape A B \<longleftrightarrow> map length A = map length B"

definition ewise2_checked :: "(real \<Rightarrow> real \<Rightarrow> real) \<Rightarrow> mat \<Rightarrow> mat \<Rightarrow> error + mat" where
  "ewise2_checked f A B = (if same_shape A B then Inr (ewise2 f A B) else Inl ShapeError)"

text \<open>
  \<open>M += b.reshape((1, w)).broadcast_to((n, w))\<close> for an optional bias \<open>b\<close>, as both
  recurrent cells write it under \<open>if b is not None\<close>; the reshape needs \<open>b\<close> to have \<open>w\<close>
  elements.
\<close>

definition add_bias :: "nat \<Rightarrow> nat \<Rightarrow> mat \<Rightarrow> vec option \<Rightarrow> error + mat" where
  "add_bias n w M b =
     (case b of
        None \<Rightarrow> Inr M
      | Some v \<Rightarrow>
          if length v \<noteq> w then Inl ShapeError
          else ewise2_checked (+) M (row_broadcast n v))"

text \<open>
  \<open>Sigmoid.forward\<close> is \<open>(1 + ops.exp(-X)) ** (-1)\<close>; \<open>Tanh.forward\<close> is \<open>ops.tanh\<close>.
\<close>

definition Sigmoid_forward :: "mat \<Rightarrow> mat" where
  "Sigmoid_forward X = ewise (\<lambda>x. inverse (1 + exp (- x))) X"

definition Tanh_forward :: "mat \<Rightarrow> mat" where
  "Tanh_forward X = ewise tanh X"

text \<open>
  Modelled from the spec: \<open>M.reshape((batch, n, h))\<close> for \<open>M\<close> of shape \<open>(batch, n * h)\<close>
  (row-major: chunk \<open>k\<close> of a row holds its elements \<open>k * h, ..., k * h + h - 1\<close>), and
  \<open>ops.split\<close> along axis 1, which returns one array per index of that axis.
\<close>

definition reshape_chunks :: "nat \<Rightarrow> nat \<Rightarrow> mat \<Rightarrow> real list list list" where
  "reshape_chunks n h M = map (\<lambda>r. map (\<lambda>k. take h (drop (k * h) r)) [0..<n]) M"

definition split_axis1 :: "real list list list \<Rightarrow> mat list" where
  "split_axis1 T = map (\<lambda>k. map (\<lambda>b. b ! k) T) [0..<ncols T]"

text \<open>
  The attributes of an \<open>LSTMCell\<close>: the weights of shape \<open>(input_size, 4 * hidden_size)\<close>
  and \<open>(hidden_size, 4 * hidden_size)\<close>, and the two biases of shape
  \<open>(4 * hidden_size,)\<close>, which are \<open>None\<close> when the cell was built without bias.
  \<open>LSTMCell_inv\<close> states these shapes for an input size.
\<close>

record LSTMCell =
  hidden_size :: nat
  W_ih :: mat
  W_hh :: mat
  bias_ih :: "vec option"
  bias_hh :: "vec option"

text \<open>
  \<open>LSTMCell.forward\<close>. The output gate, \<open>o\<close> in the source, is \<open>og\<close> here.
\<close>

definition LSTMCell_forward :: "LSTMCell \<Rightarrow> mat \<Rightarrow> (mat \<times> mat) option \<Rightarrow> error + (mat \<times> mat)" where
  "LSTMCell_forward self X h =
     (let batch_size = nrows X;
          (h0, c0) = (case h of
                        None \<Rightarrow> (zeros batch_size (hidden_size self),
                                 zeros batch_size (hidden_size self))
                      | Some hc \<Rightarrow> hc)
      in
        bind_err (matmul X (W_ih self)) (\<lambda>xw.
        bind_err (matmul h0 (W_hh self)) (\<lambda>hw.
        bind_err (ewise2_checked (+) xw hw) (\<lambda>s.
        bind_err (add_bias batch_size (4 * hidden_size self) s (bias_ih self)) (\<lambda>s.
        bind_err (add_bias batch_size (4 * hidden_size self) s (bias_hh self)) (\<lambda>intermediate.
          if ncols intermediate \<noteq> 4 * hidden_size self then Inl ShapeError
          else
            (case split_axis1 (reshape_chunks 4 (hidden_size self) intermediate) of
               [i, f, g, og] \<Rightarrow>
                 (let i = Sigmoid_forward i; f = Sigmoid_forward f;
                      g = Tanh_forward g; og = Sigmoid_forward og
                  in
                    bind_err (ewise2_checked (*) f c0) (\<lambda>fc.
                    bind_err (ewise2_checked (*) i g) (\<lambda>ig.
                    bind_err (ewise2_checked (+) fc ig) (\<lambda>c_out.
                    bind_err (ewise2_checked (*) og (Tanh_forward c_out)) (\<lambda>h_out.
                    Inr (h_out, c_out))))))
             | _ \<Rightarrow> Inl ShapeError)))))))"

text \<open>The matrix with the entry \<open>f i j\<close> in row \<open>i\<close> and column \<open>j\<close>.\<close>

definition matrix_of :: "nat \<Rightarrow> nat \<Rightarrow> (nat \<Rightarrow> nat \<Rightarrow> real) \<Rightarrow> mat" where
  "matrix_of B C f = map (\<lambda>i. map (\<lambda>j. f i j) [0..<C]) [0..<B]"

text \<open>
  What the claim says of an \<open>LSTMCell\<close>, in its words: the logistic function; the
  pre-activation of width \<open>4 * hidden_size\<close>, \<open>X\<cdot>W_ih + h0\<cdot>W_hh\<close> plus the biases that
  are present; the four gates, read from its four contiguous chunks in the order input,
  forget, candidate, output; and the new cell and hidden state.
\<close>

definition logistic :: "real \<Rightarrow> real" where
  "logistic x = 1 / (1 + exp (- x))"

definition gate_pre :: "LSTMCell \<Rightarrow> mat \<Rightarrow> mat \<Rightarrow> nat \<Rightarrow> nat \<Rightarrow> real" where
  "gate_pre self X h0 b k =
     (\<Sum>m<ncols X. X ! b ! m * W_ih self ! m ! k) +
     (\<Sum>m<ncols h0. h0 ! b ! m * W_hh self ! m ! k) +
     (case bias_ih self of None \<Rightarrow> 0 | Some v \<Rightarrow> v ! k) +
     (case bias_hh self of None \<Rightarrow> 0 | Some v \<Rightarrow> v ! k)"

definition lstm_i :: "LSTMCell \<Rightarrow> mat \<Rightarrow> mat \<Rightarrow> nat \<Rightarrow> nat \<Rightarrow> real" where
  "lstm_i self X h0 b j = logistic (gate_pre self X h0 b j)"

definition lstm_f :: "LSTMCell \<Rightarrow> mat \<Rightarrow> mat \<Rightarrow> nat \<Rightarrow> nat \<Rightarrow> real" where
  "lstm_f self X h0 b j = logistic (gate_pre self X h0 b (hidden_size self + j))"

definition lstm_g :: "LSTMCell \<Rightarrow> mat \<Rightarrow> mat \<Rightarrow> nat \<Rightarrow> nat \<Rightarrow> real" where
  "lstm_g self X h0 b j = tanh (gate_pre self X h0 b (2 * hidden_size self + j))"

definition lstm_o :: "LSTMCell \<Rightarrow> mat \<Rightarrow> mat \<Rightarrow> nat \<Rightarrow> nat \<Rightarrow> real" where
  "lstm_o self X h0 b j = logistic (gate_pre self X h0 b (3 * hidden_size self + j))"

definition lstm_c :: "LSTMCell \<Rightarrow> mat \<Rightarrow> mat \<Rightarrow> mat \<Rightarrow> nat \<Rightarrow> nat \<Rightarrow> real" where
  "lstm_c self X h0 c0 b j =
     lstm_f self X h0 b j * c0 ! b ! j + lstm_i self X h0 b j * lstm_g self X h0 b j"

definition lstm_h :: "LSTMCell \<Rightarrow> mat \<Rightarrow> mat \<Rightarrow> mat \<Rightarrow> nat \<Rightarrow> nat \<Rightarrow> real" where
  "lstm_h self X h0 c0 b j = lstm_o self X h0 b j * tanh (lstm_c self X h0 c0 b j)"

definition LSTMCell_inv :: "LSTMCell \<Rightarrow> nat \<Rightarrow> bool" where
  "LSTMCell_inv self I \<longleftrightarrow>
     is_matrix I (4 * hidden_size self) (W_ih self) \<and>
     is_matrix (hidden_size self) (4 * hidden_size self) (W_hh self) \<and>
     (case bias_ih self of None \<Rightarrow> True | Some v \<Rightarrow> length v = 4 * hidden_size self) \<and>
     (case bias_hh self of None \<Rightarrow> True | Some v \<Rightarrow> length v = 4 * hidden_size self)"

lemma is_matrix_matrix_of: "is_matrix B C (matrix_of B C f)"
  by (simp add: matrix_of_def is_matrix_def list_all_length)

lemma matrix_of_nth: "i < B \<Longrightarrow> j < C \<Longrightarrow> matrix_of B C f ! i ! j = f i j"
  by (simp add: matrix_of_def)

lemma matrix_of_self: "is_matrix B C X \<Longrightarrow> X = matrix_of B C (\<lambda>i j. X ! i ! j)"
  by (auto simp: matrix_of_def is_matrix_def list_all_length intro!: nth_equalityI)

lemma ewise_matrix_of: "ewise g (matrix_of B C f) = matrix_of B C (\<lambda>i j. g (f i j))"
  by (simp add: ewise_def matrix_of_def)

lemma same_shape_matrix: "is_matrix B C X \<Longrightarrow> is_matrix B C Y \<Longrightarrow> same_shape X Y"
  by (auto simp: same_shape_def is_matrix_def list_all_length intro!: nth_equalityI)

lemma ewise2_matrix_of:
  "ewise2 g (matrix_of B C f) (matrix_of B C f') = matrix_of B C (\<lambda>i j. g (f i j) (f' i j))"
  using ewise2_matrix[OF is_matrix_matrix_of is_matrix_matrix_of, of g B C f f']
  by (simp add: matrix_of_def)

lemma ewise2_checked_matrix_of:
  "ewise2_checked g (matrix_of B C f) (matrix_of B C f') =
     Inr (matrix_of B C (\<lambda>i j. g (f i j) (f' i j)))"
  by (simp add: ewise2_checked_def same_shape_matrix[OF is_matrix_matrix_of is_matrix_matrix_of]
      ewise2_matrix_of)

lemma matmul_matrix:
  assumes "is_matrix B I A" "is_matrix I K W" "0 < B" "0 < I"
  shows "matmul A W = Inr (matrix_of B K (\<lambda>b k. \<Sum>m<I. A ! b ! m * W ! m ! k))"
proof -
  have W: "length W = I" "ncols W = K" "nrows W = I"
    using assms(2,4) by (simp_all add: is_matrix_def nrows_def ncols_matrix[OF assms(2,4)])
  have A: "length A = B" "A \<noteq> []" "W \<noteq> []" "list_all (\<lambda>r. length r = I) A"
    using assms by (auto simp: is_matrix_def)
  have row: "sum_list (map2 (*) (A ! b) (map (\<lambda>r. r ! k) W)) = (\<Sum>m<I. A ! b ! m * W ! m ! k)"
    if "b < B" for b k
    using that matrix_nth[OF assms(1) that] W(1)
    by (simp add: sum_list_sum_nth atLeast0LessThan)
  have "map (\<lambda>r. map (\<lambda>k. sum_list (map2 (*) r (map (\<lambda>b. b ! k) W))) [0..<K]) A =
        matrix_of B K (\<lambda>b k. \<Sum>m<I. A ! b ! m * W ! m ! k)"
    unfolding matrix_of_def using A(1) by (auto intro!: nth_equalityI simp: row)
  then show ?thesis
    using A W by (simp add: matmul_def)
qed


lemma row_broadcast_matrix_of:
  "length v = K \<Longrightarrow> row_broadcast B v = matrix_of B K (\<lambda>b k. v ! k)"
  by (auto simp: row_broadcast_def matrix_of_def intro!: nth_equalityI)

lemma add_bias_matrix_of:
  assumes "case bo of None \<Rightarrow> True | Some v \<Rightarrow> length v = K"
  shows "add_bias B K (matrix_of B K f) bo =
         Inr (matrix_of B K (\<lambda>b k. f b k + (case bo of None \<Rightarrow> 0 | Some v \<Rightarrow> v ! k)))"
proof (cases bo)
  case None
  then show ?thesis by (simp add: add_bias_def)
next
  case (Some v)
  with assms have "length v = K" by simp
  then show ?thesis
    using Some by (simp add: add_bias_def row_broadcast_matrix_of ewise2_checked_matrix_of)
qed

lemma upt_4: "[0..<4] = [0, 1, 2, 3]"
  by (simp add: eval_nat_numeral)

lemma chunk_row:
  assumes "k * H + H \<le> N"
  shows "take H (drop (k * H) (map g [0..<N])) = map (\<lambda>j. g (k * H + j)) [0..<H]"
proof (rule nth_equalityI)
  show "length (take H (drop (k * H) (map g [0..<N]))) = length (map (\<lambda>j. g (k * H + j)) [0..<H])"
    using assms by simp
next
  fix j assume "j < length (take H (drop (k * H) (map g [0..<N])))"
  then have "j < H" by simp
  then show "take H (drop (k * H) (map g [0..<N])) ! j = map (\<lambda>j. g (k * H + j)) [0..<H] ! j"
    using assms by simp
qed

lemma split_gates:
  assumes "0 < B"
  shows "split_axis1 (reshape_chunks 4 H (matrix_of B (4 * H) p)) =
         [matrix_of B H (\<lambda>b j. p b j), matrix_of B H (\<lambda>b j. p b (H + j)),
          matrix_of B H (\<lambda>b j. p b (2 * H + j)), matrix_of B H (\<lambda>b j. p b (3 * H + j))]"
proof -
  have chunks: "reshape_chunks 4 H (matrix_of B (4 * H) p) =
      map (\<lambda>b. [map (\<lambda>j. p b j) [0..<H], map (\<lambda>j. p b (H + j)) [0..<H],
                map (\<lambda>j. p b (2 * H + j)) [0..<H], map (\<lambda>j. p b (3 * H + j)) [0..<H]]) [0..<B]"
    using chunk_row[of 0 H "4 * H"] chunk_row[of 1 H "4 * H"] chunk_row[of 2 H "4 * H"]
      chunk_row[of 3 H "4 * H"]
    by (auto simp: reshape_chunks_def matrix_of_def upt_4)
  have nc: "ncols (map (\<lambda>b. [map (\<lambda>j. p b j) [0..<H], map (\<lambda>j. p b (H + j)) [0..<H],
                map (\<lambda>j. p b (2 * H + j)) [0..<H], map (\<lambda>j. p b (3 * H + j)) [0..<H]]) [0..<B]) = 4"
    using assms by (simp add: ncols_def upt_conv_Cons)
  show ?thesis
    unfolding chunks split_axis1_def nc
    by (simp add: upt_4 matrix_of_def)
qed

lemma ewise2_checked_matrix_of_right:
  assumes "is_matrix B C Y"
  shows "ewise2_checked g (matrix_of B C f) Y = Inr (matrix_of B C (\<lambda>i j. g (f i j) (Y ! i ! j)))"
proof -
  have "ewise2 g (matrix_of B C f) Y =
      map (\<lambda>i. map (\<lambda>j. g (matrix_of B C f ! i ! j) (Y ! i ! j)) [0..<C]) [0..<B]"
    by (rule ewise2_matrix[OF is_matrix_matrix_of assms])
  also have "\<dots> = matrix_of B C (\<lambda>i j. g (f i j) (Y ! i ! j))"
    by (simp add: matrix_of_def)
  finally show ?thesis
    by (simp add: ewise2_checked_def same_shape_matrix[OF is_matrix_matrix_of assms])
qed

lemma ncols_matrix_of: "0 < B \<Longrightarrow> ncols (matrix_of B C f) = C"
  by (rule ncols_matrix[OF is_matrix_matrix_of])

lemma Sigmoid_matrix_of: "Sigmoid_forward (matrix_of B C f) = matrix_of B C (\<lambda>i j. logistic (f i j))"
  by (simp add: Sigmoid_forward_def ewise_matrix_of logistic_def inverse_eq_divide)

lemma Tanh_matrix_of: "Tanh_forward (matrix_of B C f) = matrix_of B C (\<lambda>i j. tanh (f i j))"
  by (simp add: Tanh_forward_def ewise_matrix_of)

lemma LSTMCell_intermediate:
  assumes inv: "LSTMCell_inv self I" and X: "is_matrix B I X" and h0: "is_matrix B H h0"
    and H: "hidden_size self = H" and pos: "0 < B" "0 < I" "0 < H"
  shows "bind_err (matmul X (W_ih self)) (\<lambda>xw.
         bind_err (matmul h0 (W_hh self)) (\<lambda>hw.
         bind_err (ewise2_checked (+) xw hw) (\<lambda>s.
         bind_err (add_bias B (4 * H) s (bias_ih self)) (\<lambda>s.
         bind_err (add_bias B (4 * H) s (bias_hh self)) (\<lambda>intermediate. k intermediate))))) =
       k (matrix_of B (4 * H) (gate_pre self X h0))"
proof -
  have W: "is_matrix I (4 * H) (W_ih self)" "is_matrix H (4 * H) (W_hh self)"
    and bi: "case bias_ih self of None \<Rightarrow> True | Some v \<Rightarrow> length v = 4 * H"
    and bh: "case bias_hh self of None \<Rightarrow> True | Some v \<Rightarrow> length v = 4 * H"
    using inv H by (auto simp: LSTMCell_inv_def split: option.splits)
  have nc: "ncols X = I" "ncols h0 = H"
    by (rule ncols_matrix[OF X pos(1)], rule ncols_matrix[OF h0 pos(1)])
  have pre: "(\<lambda>b k. (\<Sum>m<I. X ! b ! m * W_ih self ! m ! k) + (\<Sum>m<H. h0 ! b ! m * W_hh self ! m ! k) +
             (case bias_ih self of None \<Rightarrow> 0 | Some v \<Rightarrow> v ! k) +
             (case bias_hh self of None \<Rightarrow> 0 | Some v \<Rightarrow> v ! k)) = gate_pre self X h0"
    by (intro ext) (simp add: gate_pre_def nc)
  show ?thesis
    by (simp add: bind_err_def matmul_matrix[OF X W(1) pos(1,2)] matmul_matrix[OF h0 W(2) pos(1,3)]
        ewise2_checked_matrix_of add_bias_matrix_of[OF bi] add_bias_matrix_of[OF bh] pre)
qed

lemma LSTMCell_forward_Some:
  assumes inv: "LSTMCell_inv self I" and X: "is_matrix B I X" and h0: "is_matrix B H h0"
    and c0: "is_matrix B H c0" and H: "hidden_size self = H" and pos: "0 < B" "0 < I" "0 < H"
  shows "LSTMCell_forward self X (Some (h0, c0)) =
           Inr (matrix_of B H (lstm_h self X h0 c0), matrix_of B H (lstm_c self X h0 c0))"
proof -
  have nr: "nrows X = B" using X by (simp add: nrows_def is_matrix_def)
  have c: "(\<lambda>i j. logistic (gate_pre self X h0 i (H + j)) * c0 ! i ! j +
                 logistic (gate_pre self X h0 i j) * tanh (gate_pre self X h0 i (2 * H + j))) =
           lstm_c self X h0 c0"
    by (intro ext) (simp add: lstm_c_def lstm_f_def lstm_i_def lstm_g_def H)
  have h: "(\<lambda>i j. logistic (gate_pre self X h0 i (3 * H + j)) * tanh (lstm_c self X h0 c0 i j)) =
           lstm_h self X h0 c0"
    by (intro ext) (simp add: lstm_h_def lstm_o_def H)
  show ?thesis
    unfolding LSTMCell_forward_def Let_def nr H option.case prod.case
      LSTMCell_intermediate[OF inv X h0 H pos]
    by (simp add: ncols_matrix_of[OF pos(1)] split_gates[OF pos(1)] Sigmoid_matrix_of
        Tanh_matrix_of bind_err_def ewise2_checked_matrix_of
        ewise2_checked_matrix_of_right[OF c0] c h)
qed


lemma LSTMCell_forward_None:
  "LSTMCell_forward self X None =
   LSTMCell_forward self X (Some (zeros (nrows X) (hidden_size self), zeros (nrows X) (hidden_size self)))"
  by (simp add: LSTMCell_forward_def)

text \<open>
  C7. For an input of \<open>B \<ge> 1\<close> rows and \<open>I \<ge> 1\<close> features, a state \<open>(h0, c0)\<close> of shape
  \<open>(B, H)\<close> each and a cell of hidden size \<open>H \<ge> 1\<close> whose weights and biases have the
  shapes for \<open>I\<close>, the forward pass returns \<open>(h', c')\<close> with \<open>c' = f * c0 + i * g\<close> and
  \<open>h' = o * tanh(c')\<close>, where \<open>i\<close>, \<open>f\<close>, \<open>g\<close>, \<open>o\<close> are the logistic function (for \<open>g\<close>:
  \<open>tanh\<close>) of the chunks 0, 1, 2, 3 of the pre-activation. Without a state it is the
  pass on the zero state.
\<close>

theorem LSTMCell_gates:
  assumes "LSTMCell_inv self I" "is_matrix B I X" "is_matrix B H h0" "is_matrix B H c0"
    "hidden_size self = H" "0 < B" "0 < I" "0 < H"
  shows "LSTMCell_forward self X (Some (h0, c0)) =
           Inr (matrix_of B H (lstm_h self X h0 c0), matrix_of B H (lstm_c self X h0 c0)) \<and>
         LSTMCell_forward self X None = LSTMCell_forward self X (Some (zeros B H, zeros B H))"
proof -
  have "nrows X = B" using assms(2) by (simp add: nrows_def is_matrix_def)
  then show ?thesis
    using LSTMCell_forward_Some[OF assms] LSTMCell_forward_None[of self X] assms(5) by simp
qed

definition lstm_example :: LSTMCell where
  "lstm_example = \<lparr>hidden_size = 1, W_ih = [[0, 0, 0, 0]], W_hh = [[0, 0, 0, 0]],
                    bias_ih = Some [0, 1, 2, 3], bias_hh = None\<rparr>"

theorem LSTMCell_gates_witness:
  "LSTMCell_inv lstm_example 1 \<and> is_matrix 1 1 [[5::real]] \<and> is_matrix 1 1 [[7::real]] \<and>
   is_matrix 1 1 [[2::real]] \<and> hidden_size lstm_example = 1 \<and> (0::nat) < 1 \<and>
   LSTMCell_forward lstm_example [[5]] (Some ([[7]], [[2]])) =
     Inr ([[logistic 3 * tanh (logistic 1 * 2 + logistic 0 * tanh 2)]],
          [[logistic 1 * 2 + logistic 0 * tanh 2]])"
proof -
  have h: "LSTMCell_inv lstm_example 1" "is_matrix 1 1 [[5::real]]" "is_matrix 1 1 [[7::real]]"
    "is_matrix 1 1 [[2::real]]" "hidden_size lstm_example = 1" "(0::nat) < 1" "(0::nat) < 1"
    "(0::nat) < 1"
    by (simp_all add: LSTMCell_inv_def lstm_example_def is_matrix_def)
  have pre: "gate_pre lstm_example [[5]] [[7]] 0 0 = 0"
    "gate_pre lstm_example [[5]] [[7]] 0 (Suc 0) = 1"
    "gate_pre lstm_example [[5]] [[7]] 0 2 = 2" "gate_pre lstm_example [[5]] [[7]] 0 3 = 3"
    "gate_pre lstm_example [[5]] [[7]] 0 (Suc (Suc 0)) = 2"
    "gate_pre lstm_example [[5]] [[7]] 0 (Suc (Suc (Suc 0))) = 3"
    by (simp_all add: gate_pre_def lstm_example_def ncols_def)
  from LSTMCell_gates[OF h]
  have "LSTMCell_forward lstm_example [[5]] (Some ([[7]], [[2]])) =
      Inr (matrix_of 1 1 (lstm_h lstm_example [[5]] [[7]] [[2]]),
           matrix_of 1 1 (lstm_c lstm_example [[5]] [[7]] [[2]]))"
    by simp
  also have "matrix_of 1 1 (lstm_c lstm_example [[5]] [[7]] [[2]]) =
      [[logistic 1 * 2 + logistic 0 * tanh 2]]"
    by (simp add: matrix_of_def lstm_c_def lstm_f_def lstm_i_def lstm_g_def pre h(5))
  also have "matrix_of 1 1 (lstm_h lstm_example [[5]] [[7]] [[2]]) =
      [[logistic 3 * tanh (logistic 1 * 2 + logistic 0 * tanh 2)]]"
    by (simp add: matrix_of_def lstm_h_def lstm_o_def lstm_c_def lstm_f_def lstm_i_def
        lstm_g_def pre h(5))
  finally show ?thesis using h by simp
qed

end
